theory Spec2Isabelle
  imports Complex_Main
begin

section \<open>Two-dimensional tensors\<close>

text \<open>
  The notebook computes on PyTorch tensors of 32-bit floats.  For the shapes,
  the errors and the formulas, finite floats are idealised as real numbers
  (rounding is abstracted away); the one arithmetic event that has no real
  value, a division by zero, is kept explicit in \<open>fval\<close> below.  Where a
  property depends on the rounding itself, the float32 section further down
  models it.  A 2-D tensor carries its shape as PyTorch does, next to its rows.
\<close>

record 'a tensor =
  nrows :: nat
  ncols :: nat
  rowsv :: "'a list list"

definition shape :: "'a tensor \<Rightarrow> nat \<times> nat" where
  "shape t = (nrows t, ncols t)"

definition wf_tensor :: "'a tensor \<Rightarrow> bool" where
  "wf_tensor t \<longleftrightarrow>
     length (rowsv t) = nrows t \<and> list_all (\<lambda>r. length r = ncols t) (rowsv t)"

definition entry :: "'a tensor \<Rightarrow> nat \<Rightarrow> nat \<Rightarrow> 'a" where
  "entry t i j = rowsv t ! i ! j"

text \<open>The run-time errors PyTorch raises on the paths the notebook takes.\<close>

datatype error =
    MmShapeError "nat \<times> nat" "nat \<times> nat"
  | BroadcastError "nat \<times> nat" "nat \<times> nat"
  | ViewError nat nat

definition and_then :: "error + 'a \<Rightarrow> ('a \<Rightarrow> error + 'b) \<Rightarrow> error + 'b" where
  "and_then r f = (case r of Inl e \<Rightarrow> Inl e | Inr v \<Rightarrow> f v)"

definition tmap :: "('a \<Rightarrow> 'b) \<Rightarrow> 'a tensor \<Rightarrow> 'b tensor" where
  "tmap f t = \<lparr>nrows = nrows t, ncols = ncols t, rowsv = map (map f) (rowsv t)\<rparr>"

subsection \<open>Matrix product\<close>

definition col :: "'a tensor \<Rightarrow> nat \<Rightarrow> 'a list" where
  "col t j = map (\<lambda>r. r ! j) (rowsv t)"

definition dot :: "real list \<Rightarrow> real list \<Rightarrow> real" where
  "dot u v = sum_list (map2 (*) u v)"

text \<open>
  Modelled from the spec: \<open>torch.mm\<close> is PyTorch library code, absent from the
  notebook.  Section 4.1 and 7 of the specification: the product of an
  \<open>(N, D_in)\<close> batch with a \<open>(D_in, D_out)\<close> matrix; mismatched inner
  dimensions fail with a shape-mismatch error that identifies the expected and
  the actual dimensions, before any output is produced.
\<close>

definition mm :: "real tensor \<Rightarrow> real tensor \<Rightarrow> error + real tensor" where
  "mm a b =
     (if ncols a = nrows b
      then Inr \<lparr>nrows = nrows a, ncols = ncols b,
                rowsv = map (\<lambda>r. map (\<lambda>j. dot r (col b j)) [0..<ncols b]) (rowsv a)\<rparr>
      else Inl (MmShapeError (shape a) (shape b)))"

subsection \<open>Broadcasting elementwise operations\<close>

text \<open>
  Modelled from the spec: the tensor operators \<^verbatim>\<open>+\<close> and \<^verbatim>\<open>/\<close> are PyTorch
  library code.  Section 4.1 has the bias "broadcast across rows"; the rule
  for one dimension is PyTorch's: equal sizes, or one of them 1 (which is then
  stretched to the other), and an error otherwise.
\<close>

definition bdim :: "nat \<Rightarrow> nat \<Rightarrow> nat option" where
  "bdim m n =
     (if m = n then Some m else if m = 1 then Some n else if n = 1 then Some m else None)"

definition bat :: "'a tensor \<Rightarrow> nat \<Rightarrow> nat \<Rightarrow> 'a" where
  "bat t i j = rowsv t ! (if nrows t = 1 then 0 else i) ! (if ncols t = 1 then 0 else j)"

definition broadcast2 ::
  "('a \<Rightarrow> 'b \<Rightarrow> 'c) \<Rightarrow> 'a tensor \<Rightarrow> 'b tensor \<Rightarrow> error + 'c tensor" where
  "broadcast2 f a b =
     (case bdim (nrows a) (nrows b) of
        None \<Rightarrow> Inl (BroadcastError (shape a) (shape b))
      | Some n \<Rightarrow>
          (case bdim (ncols a) (ncols b) of
             None \<Rightarrow> Inl (BroadcastError (shape a) (shape b))
           | Some k \<Rightarrow>
               Inr \<lparr>nrows = n, ncols = k,
                    rowsv = map (\<lambda>i. map (\<lambda>j. f (bat a i j) (bat b i j)) [0..<k]) [0..<n]\<rparr>))"

definition tadd :: "real tensor \<Rightarrow> real tensor \<Rightarrow> error + real tensor" where
  "tadd = broadcast2 (+)"

section \<open>The hand-written network of the first exercise\<close>

text \<open>
  \<^verbatim>\<open>def activation(x): return 1 / (1 + torch.exp(-x))\<close>, elementwise.  The
  denominator is at least 1, so this division never meets zero.
\<close>

definition sigmoid :: "real \<Rightarrow> real" where
  "sigmoid v = 1 / (1 + exp (- v))"

definition activation :: "real tensor \<Rightarrow> real tensor" where
  "activation x = tmap sigmoid x"

text \<open>
  The expression \<^verbatim>\<open>torch.mm(x, W) + B\<close>, which the exercise evaluates once per
  layer, with \<open>B\<close> of shape \<open>(1, D_out)\<close>.
\<close>

definition linear_transform ::
  "real tensor \<Rightarrow> real tensor \<Rightarrow> real tensor \<Rightarrow> error + real tensor" where
  "linear_transform x W B = and_then (mm x W) (\<lambda>m. tadd m B)"

text \<open>\<^verbatim>\<open>h = activation(torch.mm(input, W1) + B1)\<close>\<close>

definition h :: "real tensor \<Rightarrow> real tensor \<Rightarrow> real tensor \<Rightarrow> error + real tensor" where
  "h input W1 B1 = and_then (linear_transform input W1 B1) (\<lambda>s. Inr (activation s))"

text \<open>\<^verbatim>\<open>out = torch.mm(h, W2) + B2\<close>\<close>

definition out ::
  "real tensor \<Rightarrow> real tensor \<Rightarrow> real tensor \<Rightarrow> real tensor \<Rightarrow> real tensor
     \<Rightarrow> error + real tensor" where
  "out input W1 B1 W2 B2 =
     and_then (h input W1 B1) (\<lambda>hv. linear_transform hv W2 B2)"

section \<open>The hand-written softmax of the second exercise\<close>

text \<open>
  A float division by zero does not raise in PyTorch: it yields an infinity or
  a NaN.  The reals have no signed zero, so the sign of the infinity is not
  tracked.
\<close>

datatype fval = Finite real | Infty | NaN

definition fdiv :: "real \<Rightarrow> real \<Rightarrow> fval" where
  "fdiv a b = (if b = 0 then (if a = 0 then NaN else Infty) else Finite (a / b))"

definition tdiv :: "real tensor \<Rightarrow> real tensor \<Rightarrow> error + fval tensor" where
  "tdiv = broadcast2 fdiv"

text \<open>\<^verbatim>\<open>torch.sum(x, dim=1)\<close>: the 1-D tensor of the row sums.\<close>

definition sum_dim1 :: "real tensor \<Rightarrow> real list" where
  "sum_dim1 x = map sum_list (rowsv x)"

text \<open>
  \<^verbatim>\<open>v.view(n, -1)\<close> on a 1-D tensor: the width is inferred as
  \<open>length v div n\<close>; PyTorch raises when \<open>n = 0\<close> (the width is ambiguous
  or the shape invalid) and when \<open>n\<close> does not divide the length.
\<close>

definition view_rows :: "nat \<Rightarrow> 'a list \<Rightarrow> error + 'a tensor" where
  "view_rows n v =
     (if n = 0 then Inl (ViewError n (length v))
      else if length v mod n = 0
      then Inr \<lparr>nrows = n, ncols = length v div n,
                rowsv = map (\<lambda>i. take (length v div n) (drop (i * (length v div n)) v))
                          [0..<n]\<rparr>
      else Inl (ViewError n (length v)))"

text \<open>
  \<^verbatim>\<open>def softmax(x): return x / torch.sum(x, dim=1).view(x.shape[0], -1)\<close>
\<close>

definition softmax :: "real tensor \<Rightarrow> error + fval tensor" where
  "softmax x = and_then (view_rows (nrows x) (sum_dim1 x)) (\<lambda>s. tdiv x s)"

text \<open>
  The scalar operation \<^verbatim>\<open>x + c\<close> on a tensor, used to state how \<open>softmax\<close>
  reacts to shifting its input.
\<close>

definition shift :: "real \<Rightarrow> real tensor \<Rightarrow> real tensor" where
  "shift c x = tmap (\<lambda>v. v + c) x"

text \<open>
  What the specification asks of a row of probabilities: every entry a number
  in \<open>[0, 1]\<close>, and the entries summing to 1 within \<open>1e-6\<close>.
\<close>

definition in_unit_interval :: "fval \<Rightarrow> bool" where
  "in_unit_interval v = (case v of Finite a \<Rightarrow> 0 \<le> a \<and> a \<le> 1 | _ \<Rightarrow> False)"

definition finite_part :: "fval \<Rightarrow> real" where
  "finite_part v = (case v of Finite a \<Rightarrow> a | _ \<Rightarrow> 0)"

definition is_distribution :: "fval list \<Rightarrow> bool" where
  "is_distribution r \<longleftrightarrow>
     list_all in_unit_interval r \<and> \<bar>sum_list (map finite_part r) - 1\<bar> \<le> 1 / 10 ^ 6"

section \<open>Range of 32-bit floats\<close>

text \<open>
  The tensors of the notebook hold IEEE 754 binary32 values.  Rounding to
  nearest, a real of magnitude \<open>2^128 - 2^103\<close> or more has no finite
  binary32 value and becomes an infinity: the operation overflows.  In
  \<open>activation\<close> the quotient lies in \<open>[0, 1]\<close> and the sum \<open>1 + e^(-x)\<close>
  overflows only if \<open>e^(-x)\<close> does, so \<^verbatim>\<open>torch.exp(-x)\<close> is the one
  intermediate result that can overflow.
\<close>

definition float32_overflow_threshold :: real where
  "float32_overflow_threshold = 2 ^ 128 - 2 ^ 103"

definition overflows :: "real \<Rightarrow> bool" where
  "overflows r \<longleftrightarrow> float32_overflow_threshold \<le> \<bar>r\<bar>"

definition activation_overflows :: "real \<Rightarrow> bool" where
  "activation_overflows v \<longleftrightarrow> overflows (exp (- v)) \<or> overflows (1 + exp (- v))"

section \<open>Networks built from the library's modules\<close>

text \<open>
  Modelled from the spec: \<open>nn.Linear\<close>, \<open>nn.Sigmoid\<close>, \<open>nn.ReLU\<close> and
  \<open>nn.Softmax\<close> (and their functional forms \<open>F.sigmoid\<close>, \<open>F.softmax\<close>) are
  PyTorch library code, absent from the notebook.  They follow sections 4.1 to
  4.4 of the specification: a linear layer holds a weight matrix of shape
  \<open>(D_in, D_out)\<close> and a bias vector of length \<open>D_out\<close> and maps a batch to
  its product with the weights plus the bias broadcast across rows; sigmoid is
  \<open>1 / (1 + e^(-x))\<close>; ReLU is \<open>max(0, x)\<close>; softmax maps a row to
  \<open>e^(x_i - m) / \<Sum>_k e^(x_k - m)\<close> with \<open>m\<close> the maximum of the row.
\<close>

record linear_layer =
  weight :: "real tensor"
  bias :: "real list"

definition is_Linear :: "nat \<Rightarrow> nat \<Rightarrow> linear_layer \<Rightarrow> bool" where
  "is_Linear d_in d_out l \<longleftrightarrow>
     wf_tensor (weight l) \<and> shape (weight l) = (d_in, d_out) \<and> length (bias l) = d_out"

definition Linear_forward :: "linear_layer \<Rightarrow> real tensor \<Rightarrow> error + real tensor" where
  "Linear_forward l x =
     linear_transform x (weight l) \<lparr>nrows = 1, ncols = length (bias l), rowsv = [bias l]\<rparr>"

definition relu :: "real \<Rightarrow> real" where
  "relu v = max 0 v"

fun max_list :: "real list \<Rightarrow> real" where
  "max_list [] = 0"
| "max_list (v # vs) = fold max vs v"

definition softmax_row :: "real list \<Rightarrow> real list" where
  "softmax_row r =
     (let m = max_list r; z = sum_list (map (\<lambda>u. exp (u - m)) r)
      in map (\<lambda>v. exp (v - m) / z) r)"

definition nn_Softmax :: "real tensor \<Rightarrow> real tensor" where
  "nn_Softmax x = \<lparr>nrows = nrows x, ncols = ncols x, rowsv = map softmax_row (rowsv x)\<rparr>"

text \<open>
  \<^verbatim>\<open>class Network(nn.Module)\<close>: \<^verbatim>\<open>__init__\<close> creates
  \<^verbatim>\<open>self.hidden = nn.Linear(784, 256)\<close> and \<^verbatim>\<open>self.output = nn.Linear(256, 10)\<close>
  with parameter values of its own choosing; \<^verbatim>\<open>forward\<close> is
  \<^verbatim>\<open>softmax(output(sigmoid(hidden(x))))\<close>.  The notebook defines this class
  three times with the same layers and the same forward pass, the third time
  as the solution of the "your turn" exercise.  The field \<open>output\<close> is
  written \<open>output'\<close> here.
\<close>

record network =
  hidden :: linear_layer
  output' :: linear_layer

definition is_Network :: "network \<Rightarrow> bool" where
  "is_Network net \<longleftrightarrow> is_Linear 784 256 (hidden net) \<and> is_Linear 256 10 (output' net)"

definition Network_forward :: "network \<Rightarrow> real tensor \<Rightarrow> error + real tensor" where
  "Network_forward net x =
     and_then (Linear_forward (hidden net) x) (\<lambda>a.
     and_then (Linear_forward (output' net) (tmap sigmoid a)) (\<lambda>b.
     Inr (nn_Softmax b)))"

text \<open>
  \<^verbatim>\<open>nn.Sequential\<close>: the modules are applied in order, each to the result of
  the one before.
\<close>

datatype module = Linear linear_layer | ReLU | Sigmoid | Softmax

fun module_forward :: "module \<Rightarrow> real tensor \<Rightarrow> error + real tensor" where
  "module_forward (Linear l) x = Linear_forward l x"
| "module_forward ReLU x = Inr (tmap relu x)"
| "module_forward Sigmoid x = Inr (tmap sigmoid x)"
| "module_forward Softmax x = Inr (nn_Softmax x)"

fun Sequential_forward :: "module list \<Rightarrow> real tensor \<Rightarrow> error + real tensor" where
  "Sequential_forward [] x = Inr x"
| "Sequential_forward (m # ms) x = and_then (module_forward m x) (Sequential_forward ms)"

text \<open>
  The \<^verbatim>\<open>nn.Sequential\<close> model of the last part, with
  \<^verbatim>\<open>input_size = 784\<close>, \<^verbatim>\<open>hidden_sizes = [128, 64]\<close>, \<^verbatim>\<open>output_size = 10\<close>.
\<close>

definition model :: "linear_layer \<Rightarrow> linear_layer \<Rightarrow> linear_layer \<Rightarrow> module list" where
  "model fc1 fc2 fc3 = [Linear fc1, ReLU, Linear fc2, ReLU, Linear fc3, Softmax]"

definition is_model :: "linear_layer \<Rightarrow> linear_layer \<Rightarrow> linear_layer \<Rightarrow> bool" where
  "is_model fc1 fc2 fc3 \<longleftrightarrow>
     is_Linear 784 128 fc1 \<and> is_Linear 128 64 fc2 \<and> is_Linear 64 10 fc3"

section \<open>Fixtures for concrete scenarios\<close>

text \<open>\<^verbatim>\<open>torch.zeros(n, k)\<close>, and a linear layer whose parameters are all zero.\<close>

definition zeros :: "nat \<Rightarrow> nat \<Rightarrow> real tensor" where
  "zeros n k = \<lparr>nrows = n, ncols = k, rowsv = replicate n (replicate k 0)\<rparr>"

definition zero_layer :: "nat \<Rightarrow> nat \<Rightarrow> linear_layer" where
  "zero_layer d_in d_out = \<lparr>weight = zeros d_in d_out, bias = replicate d_out 0\<rparr>"

section \<open>Float32 arithmetic with rounding\<close>

text \<open>
  Whether scaling its input changes the result of \<open>softmax\<close> depends on how
  every single float operation rounds, so this section keeps the rounding.  A
  float32 value is a real number that IEEE 754 binary32 represents, an
  infinity or a NaN; an operation returns the exact result rounded to the
  nearest representable value, ties to even.  Zero carries no sign here: the
  zero divisor that \<open>softmax\<close> can meet is a row sum, and a row sum is
  \<open>-0\<close> only when the whole row is, where every quotient is a NaN either way.
\<close>

datatype float32 = F32 real | PosInf | NegInf | NotANumber

text \<open>
  The exponent of the binade of \<open>a\<close>: the \<open>e\<close> between \<open>-126\<close> and \<open>127\<close>
  with \<open>2^e \<le> a < 2^(e+1)\<close>, found by counting upwards from \<open>-126\<close>.
  Below \<open>2^-126\<close> it stays \<open>-126\<close>: the subnormal numbers have the
  spacing of the lowest binade.
\<close>

fun exponent_from :: "nat \<Rightarrow> int \<Rightarrow> real \<Rightarrow> int" where
  "exponent_from 0 e a = e"
| "exponent_from (Suc n) e a = (if 2 powi (e + 1) \<le> a then exponent_from n (e + 1) a else e)"

definition exponent :: "real \<Rightarrow> int" where
  "exponent r = exponent_from 253 (- 126) \<bar>r\<bar>"

text \<open>The integer nearest to \<open>q\<close>, the even one of the two when \<open>q\<close> lies halfway.\<close>

definition round_even :: "real \<Rightarrow> int" where
  "round_even q =
     (if q - of_int \<lfloor>q\<rfloor> < 1 / 2 then \<lfloor>q\<rfloor>
      else if 1 / 2 < q - of_int \<lfloor>q\<rfloor> then \<lfloor>q\<rfloor> + 1
      else if even \<lfloor>q\<rfloor> then \<lfloor>q\<rfloor> else \<lfloor>q\<rfloor> + 1)"

text \<open>
  \<open>quantum r\<close> is the spacing of the floats around \<open>r\<close> (24 significant
  bits) and \<open>nearest r\<close> the multiple of it nearest to \<open>r\<close>.  From
  \<open>2^128 - 2^103\<close> on, halfway between the largest float and \<open>2^128\<close>, the
  rounded result is an infinity.
\<close>

definition quantum :: "real \<Rightarrow> real" where
  "quantum r = 2 powi (exponent r - 23)"

definition nearest :: "real \<Rightarrow> real" where
  "nearest r = quantum r * of_int (round_even (r / quantum r))"

definition round32 :: "real \<Rightarrow> float32" where
  "round32 r =
     (if float32_overflow_threshold \<le> \<bar>r\<bar> then (if 0 < r then PosInf else NegInf)
      else F32 (nearest r))"

text \<open>
  Addition, multiplication and division, with the results IEEE 754 gives for
  infinities and NaN.
\<close>

fun add32 :: "float32 \<Rightarrow> float32 \<Rightarrow> float32" where
  "add32 (F32 a) (F32 b) = round32 (a + b)"
| "add32 NotANumber v = NotANumber"
| "add32 u NotANumber = NotANumber"
| "add32 PosInf NegInf = NotANumber"
| "add32 NegInf PosInf = NotANumber"
| "add32 PosInf v = PosInf"
| "add32 u PosInf = PosInf"
| "add32 NegInf v = NegInf"
| "add32 u NegInf = NegInf"

definition neg32 :: "float32 \<Rightarrow> float32" where
  "neg32 u = (case u of F32 a \<Rightarrow> F32 (- a) | PosInf \<Rightarrow> NegInf | NegInf \<Rightarrow> PosInf
              | NotANumber \<Rightarrow> NotANumber)"

definition signed_inf :: "real \<Rightarrow> float32 \<Rightarrow> float32" where
  "signed_inf a u = (if a = 0 then NotANumber else if 0 < a then u else neg32 u)"

fun mul32 :: "float32 \<Rightarrow> float32 \<Rightarrow> float32" where
  "mul32 (F32 a) (F32 b) = round32 (a * b)"
| "mul32 NotANumber v = NotANumber"
| "mul32 u NotANumber = NotANumber"
| "mul32 (F32 a) v = signed_inf a v"
| "mul32 u (F32 b) = signed_inf b u"
| "mul32 PosInf v = v"
| "mul32 NegInf v = neg32 v"

fun div32 :: "float32 \<Rightarrow> float32 \<Rightarrow> float32" where
  "div32 (F32 a) (F32 b) =
     (if b = 0 then (if a = 0 then NotANumber else if 0 < a then PosInf else NegInf)
      else round32 (a / b))"
| "div32 NotANumber v = NotANumber"
| "div32 u NotANumber = NotANumber"
| "div32 (F32 a) v = F32 0"
| "div32 u (F32 b) = (if 0 \<le> b then u else neg32 u)"
| "div32 u v = NotANumber"

text \<open>
  \<^verbatim>\<open>torch.sum(x, dim=1)\<close> in float32.  PyTorch does not fix the order in which
  it adds the entries of a row, so the order is a parameter: a tree whose
  leaves are positions of the row (or an accumulator that starts at zero) and
  whose nodes are float additions.  \<open>left_to_right n\<close> adds \<open>n\<close> entries
  one after the other.
\<close>

datatype sum_order = Zero | Elem nat | Plus sum_order sum_order

fun reduce32 :: "sum_order \<Rightarrow> float32 list \<Rightarrow> float32" where
  "reduce32 Zero row = F32 0"
| "reduce32 (Elem j) row = (if j < length row then row ! j else F32 0)"
| "reduce32 (Plus l r) row = add32 (reduce32 l row) (reduce32 r row)"

fun left_to_right :: "nat \<Rightarrow> sum_order" where
  "left_to_right 0 = Zero"
| "left_to_right (Suc n) = Plus (left_to_right n) (Elem n)"

text \<open>
  The float32 computation of \<^verbatim>\<open>x / torch.sum(x, dim=1).view(x.shape[0], -1)\<close>,
  and of \<^verbatim>\<open>c * x\<close> and \<^verbatim>\<open>x + c\<close> for a Python scalar \<open>c\<close>, which PyTorch
  converts to float32 first.
\<close>

definition softmax32 :: "sum_order \<Rightarrow> float32 tensor \<Rightarrow> error + float32 tensor" where
  "softmax32 ord x =
     and_then (view_rows (nrows x) (map (reduce32 ord) (rowsv x))) (\<lambda>s. broadcast2 div32 x s)"

definition scale32 :: "real \<Rightarrow> float32 tensor \<Rightarrow> float32 tensor" where
  "scale32 c x = tmap (mul32 (round32 c)) x"

definition shift32 :: "real \<Rightarrow> float32 tensor \<Rightarrow> float32 tensor" where
  "shift32 c x = tmap (\<lambda>v. add32 v (round32 c)) x"

text \<open>
  The multiples of \<open>2^-149\<close>, the smallest positive float: every float is one.
  Used in the proofs only.
\<close>

definition on_grid :: "real \<Rightarrow> bool" where
  "on_grid r \<longleftrightarrow> (\<exists>m::int. r = of_int m * 2 powi (- 149))"

section \<open>Auxiliary facts\<close>

subsection \<open>Results and shapes\<close>

lemma and_then_Inr [simp]: "and_then (Inr v) f = f v"
  by (simp add: and_then_def)

lemma and_then_Inl [simp]: "and_then (Inl e) f = Inl e"
  by (simp add: and_then_def)

lemma wf_tensorD:
  assumes "wf_tensor t" and "i < nrows t"
  shows "length (rowsv t ! i) = ncols t"
  using assms by (simp add: wf_tensor_def list_all_length)

lemma tmap_wf: "wf_tensor x \<Longrightarrow> wf_tensor (tmap f x)"
  by (simp add: tmap_def wf_tensor_def list_all_length)

lemma tmap_shape: "shape (tmap f x) = shape x"
  by (simp add: tmap_def shape_def)

lemma zeros_wf: "wf_tensor (zeros n k)"
  by (simp add: zeros_def wf_tensor_def list_all_length)

lemma zeros_shape: "shape (zeros n k) = (n, k)"
  by (simp add: zeros_def shape_def)

lemma zero_layer_is_Linear: "is_Linear d_in d_out (zero_layer d_in d_out)"
  by (simp add: is_Linear_def zero_layer_def zeros_wf zeros_shape)

subsection \<open>The linear transform\<close>

lemma dot_sum:
  assumes "length u = n" and "length v = n"
  shows "dot u v = (\<Sum>k<n. u ! k * v ! k)"
proof -
  have "dot u v = (\<Sum>k = 0..<n. map2 (*) u v ! k)"
    using assms by (simp add: dot_def sum_list_sum_nth)
  also have "\<dots> = (\<Sum>k = 0..<n. u ! k * v ! k)"
    using assms by (intro sum.cong) simp_all
  finally show ?thesis by (simp add: atLeast0LessThan)
qed

lemma mm_Inr:
  assumes "ncols a = nrows b"
  shows "mm a b = Inr \<lparr>nrows = nrows a, ncols = ncols b,
            rowsv = map (\<lambda>r. map (\<lambda>j. dot r (col b j)) [0..<ncols b]) (rowsv a)\<rparr>"
  using assms by (simp add: mm_def)

lemma mm_correct:
  assumes wa: "wf_tensor a" and wb: "wf_tensor b" and inner: "ncols a = nrows b"
  shows "\<exists>y. mm a b = Inr y \<and> wf_tensor y \<and> nrows y = nrows a \<and> ncols y = ncols b \<and>
          (\<forall>i j. i < nrows a \<longrightarrow> j < ncols b \<longrightarrow>
             entry y i j = (\<Sum>k<ncols a. entry a i k * entry b k j))"
proof -
  define y where "y = \<lparr>nrows = nrows a, ncols = ncols b,
            rowsv = map (\<lambda>r. map (\<lambda>j. dot r (col b j)) [0..<ncols b]) (rowsv a)\<rparr>"
  have 1: "mm a b = Inr y"
    unfolding y_def by (rule mm_Inr [OF inner])
  have 2: "wf_tensor y"
    using wa by (simp add: y_def wf_tensor_def list_all_length)
  have 3: "entry y i j = (\<Sum>k<ncols a. entry a i k * entry b k j)"
    if "i < nrows a" and "j < ncols b" for i j
  proof -
    have la: "length (rowsv a) = nrows a" using wa by (simp add: wf_tensor_def)
    have lb: "length (rowsv b) = nrows b" using wb by (simp add: wf_tensor_def)
    have "entry y i j = dot (rowsv a ! i) (col b j)"
      using that la by (simp add: y_def entry_def)
    also have "\<dots> = (\<Sum>k<ncols a. rowsv a ! i ! k * col b j ! k)"
      using wf_tensorD [OF wa that(1)] lb inner
      by (intro dot_sum) (simp_all add: col_def)
    also have "\<dots> = (\<Sum>k<ncols a. entry a i k * entry b k j)"
      using lb inner by (intro sum.cong) (simp_all add: col_def entry_def)
    finally show ?thesis .
  qed
  have "nrows y = nrows a" and "ncols y = ncols b"
    by (simp_all add: y_def)
  with 1 2 3 show ?thesis by blast
qed

lemma tadd_row:
  assumes wm: "wf_tensor m" and wB: "wf_tensor B" and nB: "nrows B = 1"
    and cB: "ncols B = ncols m"
  shows "\<exists>y. tadd m B = Inr y \<and> wf_tensor y \<and> nrows y = nrows m \<and> ncols y = ncols m \<and>
          (\<forall>i j. i < nrows m \<longrightarrow> j < ncols m \<longrightarrow>
             entry y i j = entry m i j + entry B 0 j)"
proof -
  define y where "y = \<lparr>nrows = nrows m, ncols = ncols m,
     rowsv = map (\<lambda>i. map (\<lambda>j. bat m i j + bat B i j) [0..<ncols m]) [0..<nrows m]\<rparr>"
  have 1: "tadd m B = Inr y"
    using nB cB by (simp add: tadd_def broadcast2_def bdim_def y_def)
  have 2: "wf_tensor y"
    by (simp add: y_def wf_tensor_def list_all_length)
  have 3: "entry y i j = entry m i j + entry B 0 j"
    if "i < nrows m" and "j < ncols m" for i j
    using that nB cB by (auto simp add: y_def entry_def bat_def)
  have "nrows y = nrows m" and "ncols y = ncols m"
    by (simp_all add: y_def)
  with 1 2 3 show ?thesis by blast
qed

lemma linear_transform_correct:
  assumes "wf_tensor x" and "wf_tensor W" and "wf_tensor B"
    and "shape x = (N, D_in)" and "shape W = (D_in, D_out)" and "shape B = (1, D_out)"
  shows "\<exists>y. linear_transform x W B = Inr y \<and> wf_tensor y \<and> shape y = (N, D_out) \<and>
          (\<forall>i<N. \<forall>j<D_out.
             entry y i j = (\<Sum>k<D_in. entry x i k * entry W k j) + entry B 0 j)"
proof -
  from assms have s: "nrows x = N" "ncols x = D_in" "nrows W = D_in" "ncols W = D_out"
    "nrows B = 1" "ncols B = D_out"
    by (simp_all add: shape_def)
  from s have "ncols x = nrows W" by simp
  from mm_correct [OF assms(1,2) this] obtain m where m: "mm x W = Inr m" "wf_tensor m"
    "nrows m = nrows x" "ncols m = ncols W"
    "\<And>i j. i < nrows x \<Longrightarrow> j < ncols W \<Longrightarrow>
           entry m i j = (\<Sum>k<ncols x. entry x i k * entry W k j)"
    by blast
  from s m have "ncols B = ncols m" by simp
  from tadd_row [OF m(2) assms(3) s(5) this] obtain y where y: "tadd m B = Inr y" "wf_tensor y"
    "nrows y = nrows m" "ncols y = ncols m"
    "\<And>i j. i < nrows m \<Longrightarrow> j < ncols m \<Longrightarrow> entry y i j = entry m i j + entry B 0 j"
    by blast
  have "linear_transform x W B = Inr y"
    by (simp add: linear_transform_def m(1) y(1))
  moreover have "shape y = (N, D_out)"
    using y(3,4) m(3,4) s by (simp add: shape_def)
  moreover have "entry y i j = (\<Sum>k<D_in. entry x i k * entry W k j) + entry B 0 j"
    if "i < N" and "j < D_out" for i j
    using that y(5) [of i j] m(5) [of i j] m(3,4) s by simp
  ultimately show ?thesis using y(2) by blast
qed

lemma activation_wf: "wf_tensor x \<Longrightarrow> wf_tensor (activation x)"
  by (simp add: activation_def tmap_wf)

lemma activation_shape: "shape (activation x) = shape x"
  by (simp add: activation_def tmap_shape)

lemma activation_entry:
  assumes "wf_tensor x" and "i < nrows x" and "j < ncols x"
  shows "entry (activation x) i j = 1 / (1 + exp (- entry x i j))"
  using assms
  by (simp add: activation_def tmap_def entry_def wf_tensor_def list_all_length sigmoid_def)

lemma h_shape:
  assumes "wf_tensor x" and "wf_tensor W1" and "wf_tensor B1"
    and "shape x = (N, D_in)" and "shape W1 = (D_in, D_h)" and "shape B1 = (1, D_h)"
  shows "\<exists>a. h x W1 B1 = Inr a \<and> wf_tensor a \<and> shape a = (N, D_h)"
proof -
  from linear_transform_correct [OF assms]
  obtain s where "linear_transform x W1 B1 = Inr s" "wf_tensor s" "shape s = (N, D_h)"
    by blast
  then show ?thesis
    by (simp add: h_def activation_wf activation_shape)
qed

lemma out_shape:
  assumes "wf_tensor x" and "shape x = (N, D_in)"
    and "wf_tensor W1" and "shape W1 = (D_in, D_h)"
    and "wf_tensor B1" and "shape B1 = (1, D_h)"
    and "wf_tensor W2" and "shape W2 = (D_h, D_out)"
    and "wf_tensor B2" and "shape B2 = (1, D_out)"
  shows "\<exists>y. out x W1 B1 W2 B2 = Inr y \<and> wf_tensor y \<and> shape y = (N, D_out)"
proof -
  from h_shape [OF assms(1,3,5,2,4,6)]
  obtain a where a: "h x W1 B1 = Inr a" "wf_tensor a" "shape a = (N, D_h)"
    by blast
  from linear_transform_correct [OF a(2) assms(7,9) a(3) assms(8,10)]
  obtain y where "linear_transform a W2 B2 = Inr y" "wf_tensor y" "shape y = (N, D_out)"
    by blast
  then show ?thesis
    by (simp add: out_def a(1))
qed

lemma out_second_layer_mismatch:
  assumes "h x W1 B1 = Inr a" and "ncols a \<noteq> nrows W2"
  shows "out x W1 B1 W2 B2 = Inl (MmShapeError (nrows a, ncols a) (nrows W2, ncols W2))"
  using assms by (simp add: out_def linear_transform_def mm_def shape_def)

subsection \<open>The sigmoid and the range of its intermediate results\<close>

lemma sigmoid_zero: "sigmoid 0 = 1 / 2"
  by (simp add: sigmoid_def)

lemma sigmoid_less:
  assumes "u < v"
  shows "sigmoid u < sigmoid v"
proof -
  have "exp (- v) < exp (- u)" using assms by simp
  moreover have "0 < 1 + exp (- v)" by (simp add: add_pos_pos)
  ultimately show ?thesis
    unfolding sigmoid_def by (intro divide_strict_left_mono) (simp_all add: add_pos_pos)
qed

lemma sigmoid_strict_mono: "strict_mono sigmoid"
  by (rule strict_monoI) (rule sigmoid_less)

lemma sigmoid_mono: "mono sigmoid"
  by (rule strict_mono_mono) (rule sigmoid_strict_mono)

lemma sigmoid_at_top: "(sigmoid \<longlongrightarrow> 1) at_top"
proof -
  have "((\<lambda>v::real. exp (- v)) \<longlongrightarrow> 0) at_top"
    by (rule filterlim_compose [OF exp_at_bot filterlim_uminus_at_bot_at_top])
  then have "((\<lambda>v::real. 1 / (1 + exp (- v))) \<longlongrightarrow> 1 / (1 + 0)) at_top"
    by (intro tendsto_intros) simp_all
  then show ?thesis
    by (simp add: sigmoid_def [abs_def])
qed

lemma sigmoid_at_bot: "(sigmoid \<longlongrightarrow> 0) at_bot"
proof -
  have "LIM v at_bot. exp (- v :: real) :> at_top"
    by (rule filterlim_compose [OF exp_at_top filterlim_uminus_at_top_at_bot])
  then have "LIM v at_bot. 1 + exp (- v :: real) :> at_top"
    by (intro filterlim_tendsto_add_at_top [where c = 1]) simp_all
  then have "LIM v at_bot. 1 + exp (- v :: real) :> at_infinity"
    by (rule filterlim_at_top_imp_at_infinity)
  then have "((\<lambda>v::real. 1 / (1 + exp (- v))) \<longlongrightarrow> 0) at_bot"
    by (intro tendsto_divide_0 [where c = 1]) simp_all
  then show ?thesis
    by (simp add: sigmoid_def [abs_def])
qed

lemma exp_nat_ge: "2 ^ n \<le> exp (real n)"
proof -
  have "(2::real) \<le> exp 1"
    using exp_ge_add_one_self [of "1::real"] by simp
  then have "(2::real) ^ n \<le> exp 1 ^ n"
    by (intro power_mono) simp_all
  also have "\<dots> = exp (real n)"
    using exp_of_nat_mult [of n "1::real"] by simp
  finally show ?thesis .
qed

lemma exp_64th: "exp (1 / 64 :: real) \<le> 4161 / 4096"
  using exp_bound [of "1 / 64 :: real"] by (simp add: power2_eq_square)

lemma exp_one_le: "exp (1::real) \<le> 137 / 50"
proof -
  have "exp (1::real) = exp (1 / 64) ^ 64"
    using exp_of_nat_mult [of 64 "1 / 64 :: real"] by simp
  also have "\<dots> \<le> (4161 / 4096) ^ 64"
    by (intro power_mono exp_64th) simp
  also have "\<dots> \<le> (137 / 50 :: real)"
    by (simp add: power_divide)
  finally show ?thesis .
qed

lemma exp_8_le: "exp (8::real) \<le> 3177"
proof -
  have "exp (8::real) = exp 1 ^ 8"
    using exp_of_nat_mult [of 8 "1::real"] by simp
  also have "\<dots> \<le> (137 / 50) ^ 8"
    by (intro power_mono exp_one_le) simp
  also have "\<dots> \<le> (3177 :: real)"
    by (simp add: power_divide)
  finally show ?thesis .
qed

lemma exp_88_bound: "1 + exp (88::real) < float32_overflow_threshold"
proof -
  have "exp (88::real) = exp 8 ^ 11"
    using exp_of_nat_mult [of 11 "8::real"] by simp
  also have "\<dots> \<le> 3177 ^ 11"
    by (intro power_mono exp_8_le) simp
  also have "\<dots> < float32_overflow_threshold - 1"
    by (simp add: float32_overflow_threshold_def)
  finally show ?thesis by simp
qed

lemma activation_no_overflow:
  assumes "- 88 \<le> v"
  shows "\<not> activation_overflows v"
proof -
  have "exp (- v) \<le> exp 88" using assms by simp
  then have "1 + exp (- v) < float32_overflow_threshold"
    using exp_88_bound by linarith
  moreover have "\<bar>exp (- v)\<bar> = exp (- v)" by simp
  moreover have "\<bar>1 + exp (- v)\<bar> = 1 + exp (- v)"
    by (simp add: add_nonneg_nonneg)
  ultimately show ?thesis
    unfolding activation_overflows_def overflows_def by linarith
qed

lemma exp_overflow:
  assumes "v \<le> - 128"
  shows "overflows (exp (- v))"
proof -
  have "float32_overflow_threshold \<le> 2 ^ 128"
    by (simp add: float32_overflow_threshold_def)
  also have "\<dots> \<le> exp (real 128)"
    by (rule exp_nat_ge)
  also have "\<dots> \<le> exp (- v)"
    using assms by simp
  finally show ?thesis
    by (simp add: overflows_def)
qed

lemma activation_overflow:
  assumes "v \<le> - 128"
  shows "activation_overflows v"
  using exp_overflow [OF assms] by (simp add: activation_overflows_def)

subsection \<open>The hand-written softmax\<close>

lemma view_rows_column:
  assumes "length v = n" and "0 < n"
  shows "view_rows n v = Inr \<lparr>nrows = n, ncols = Suc 0, rowsv = map (\<lambda>i. [v ! i]) [0..<n]\<rparr>"
proof -
  have "take (Suc 0) (drop i v) = [v ! i]" if "i < n" for i
    using that assms(1) by (simp add: take_Suc_conv_app_nth hd_drop_conv_nth take_Suc)
  then have "map (\<lambda>i. take (Suc 0) (drop i v)) [0..<n] = map (\<lambda>i. [v ! i]) [0..<n]"
    by (intro map_cong) simp_all
  then show ?thesis
    using assms by (simp add: view_rows_def)
qed

lemma broadcast2_column:
  assumes "nrows x = n" and "ncols x = k"
  shows "broadcast2 f x \<lparr>nrows = n, ncols = Suc 0, rowsv = map (\<lambda>i. [s i]) [0..<n]\<rparr>
    = Inr \<lparr>nrows = n, ncols = k,
           rowsv = map (\<lambda>i. map (\<lambda>j. f (entry x i j) (s i)) [0..<k]) [0..<n]\<rparr>"
proof -
  let ?c = "\<lparr>nrows = n, ncols = Suc 0, rowsv = map (\<lambda>i. [s i]) [0..<n]\<rparr>"
  have e: "f (bat x i j) (bat ?c i j) = f (entry x i j) (s i)" if "i < n" and "j < k" for i j
    using that assms by (auto simp add: bat_def entry_def)
  have "map (\<lambda>i. map (\<lambda>j. f (bat x i j) (bat ?c i j)) [0..<k]) [0..<n]
      = map (\<lambda>i. map (\<lambda>j. f (entry x i j) (s i)) [0..<k]) [0..<n]"
    by (intro map_cong refl) (simp add: e)
  then show ?thesis
    using assms by (simp add: broadcast2_def bdim_def)
qed


lemma softmax_empty_batch:
  assumes "nrows x = 0"
  shows "softmax x = Inl (ViewError 0 (length (rowsv x)))"
  using assms by (simp add: softmax_def view_rows_def sum_dim1_def)


lemma softmax_example_01:
  "softmax \<lparr>nrows = 1, ncols = 2, rowsv = [[0, 1]]\<rparr>
     = Inr \<lparr>nrows = 1, ncols = 2, rowsv = [[Finite 0, Finite 1]]\<rparr>"
  by (simp add: softmax_def view_rows_def sum_dim1_def tdiv_def broadcast2_def bdim_def
      bat_def fdiv_def upt_rec)

lemma softmax_example_12:
  "softmax (shift 1 \<lparr>nrows = 1, ncols = 2, rowsv = [[0, 1]]\<rparr>)
     = Inr \<lparr>nrows = 1, ncols = 2, rowsv = [[Finite (1 / 3), Finite (2 / 3)]]\<rparr>"
  by (simp add: shift_def tmap_def softmax_def view_rows_def sum_dim1_def tdiv_def
      broadcast2_def bdim_def bat_def fdiv_def upt_rec)

lemma softmax_example_neg:
  "softmax \<lparr>nrows = 1, ncols = 2, rowsv = [[2, - 1]]\<rparr>
     = Inr \<lparr>nrows = 1, ncols = 2, rowsv = [[Finite 2, Finite (- 1)]]\<rparr>"
  by (simp add: softmax_def view_rows_def sum_dim1_def tdiv_def broadcast2_def bdim_def
      bat_def fdiv_def upt_rec)

lemma softmax_shift_differs:
  "softmax (shift 1 \<lparr>nrows = 1, ncols = 2, rowsv = [[0, 1]]\<rparr>)
     \<noteq> softmax \<lparr>nrows = 1, ncols = 2, rowsv = [[0, 1]]\<rparr>"
  unfolding softmax_example_01 softmax_example_12 by simp

subsection \<open>The library softmax\<close>

text \<open>
  The softmax of section 4.4, which \<open>nn.Softmax\<close> stands for, is the
  exponential formula of the notebook's own text, yields probability
  distributions and is invariant under shifts: the sibling path has the
  properties that the hand-written function lacks.
\<close>

lemma softmax_row_length [simp]: "length (softmax_row r) = length r"
  by (simp add: softmax_row_def Let_def)

lemma nn_Softmax_wf: "wf_tensor x \<Longrightarrow> wf_tensor (nn_Softmax x)"
  by (simp add: nn_Softmax_def wf_tensor_def list_all_length)

lemma nn_Softmax_shape: "shape (nn_Softmax x) = shape x"
  by (simp add: nn_Softmax_def shape_def)

lemma exp_sum_pos:
  assumes "r \<noteq> []"
  shows "0 < sum_list (map (\<lambda>u. exp (u - m :: real)) r)"
  using assms
proof (induction r)
  case Nil
  then show ?case by simp
next
  case (Cons a r)
  have "0 \<le> sum_list (map (\<lambda>u. exp (u - m)) r)"
    by (rule sum_list_nonneg) auto
  then show ?case
    by (simp add: add_pos_nonneg)
qed

lemma softmax_row_sum:
  assumes "r \<noteq> []"
  shows "sum_list (softmax_row r) = 1"
proof -
  define m where "m = max_list r"
  define z where "z = sum_list (map (\<lambda>u. exp (u - m)) r)"
  have z: "0 < z" unfolding z_def by (rule exp_sum_pos [OF assms])
  have "sum_list (softmax_row r) = sum_list (map (\<lambda>v. exp (v - m) * (1 / z)) r)"
    by (simp add: softmax_row_def m_def z_def Let_def)
  also have "\<dots> = sum_list (map (\<lambda>v. exp (v - m)) r) * (1 / z)"
    by (rule sum_list_mult_const)
  also have "\<dots> = 1"
    using z by (simp add: z_def)
  finally show ?thesis .
qed

lemma softmax_row_range:
  assumes "p \<in> set (softmax_row r)"
  shows "0 \<le> p \<and> p \<le> 1"
proof -
  define m where "m = max_list r"
  define z where "z = sum_list (map (\<lambda>u. exp (u - m)) r)"
  from assms obtain v where v: "v \<in> set r" "p = exp (v - m) / z"
    by (auto simp add: softmax_row_def m_def z_def Let_def)
  then have "r \<noteq> []" by auto
  then have z: "0 < z" unfolding z_def by (rule exp_sum_pos)
  have "exp (v - m) \<le> z"
    unfolding z_def using v(1)
    by (intro member_le_sum_list) auto
  then show ?thesis
    using z v(2) by simp
qed

lemma softmax_row_exp:
  "softmax_row r = map (\<lambda>v. exp v / sum_list (map exp r)) r"
proof -
  define m where "m = max_list r"
  have e: "exp (u - m) = exp u * exp (- m)" for u
    by (simp add: exp_diff exp_minus divide_inverse)
  have "sum_list (map (\<lambda>u. exp (u - m)) r) = sum_list (map (\<lambda>u. exp u * exp (- m)) r)"
    by (simp add: e)
  also have "\<dots> = sum_list (map exp r) * exp (- m)"
    by (rule sum_list_mult_const)
  finally have z: "sum_list (map (\<lambda>u. exp (u - m)) r) = sum_list (map exp r) * exp (- m)" .
  have "softmax_row r
      = map (\<lambda>v. (exp v * exp (- m)) / (sum_list (map exp r) * exp (- m))) r"
    unfolding softmax_row_def Let_def m_def [symmetric] z by (simp only: e)
  also have "\<dots> = map (\<lambda>v. exp v / sum_list (map exp r)) r"
    by (simp only: mult_divide_mult_cancel_right [OF exp_not_eq_zero])
  finally show ?thesis .
qed

lemma fold_max_shift:
  "fold max (map (\<lambda>v. v + c) vs) (a + c) = fold max vs a + (c::real)"
  by (induction vs arbitrary: a) (simp_all add: max_add_distrib_left [symmetric])

lemma max_list_shift:
  assumes "r \<noteq> []"
  shows "max_list (map (\<lambda>v. v + c) r) = max_list r + c"
  using assms by (cases r) (simp_all add: fold_max_shift)

lemma softmax_row_shift: "softmax_row (map (\<lambda>v. v + c) r) = softmax_row r"
proof (cases "r = []")
  case True
  then show ?thesis by (simp add: softmax_row_def)
next
  case False
  then show ?thesis
    by (simp add: softmax_row_def Let_def max_list_shift comp_def)
qed

lemma nn_Softmax_shift: "nn_Softmax (shift c x) = nn_Softmax x"
  by (simp add: nn_Softmax_def shift_def tmap_def softmax_row_shift comp_def)

lemma softmax_row_distribution:
  assumes "r \<noteq> []"
  shows "is_distribution (map Finite (softmax_row r))"
proof -
  have "list_all in_unit_interval (map Finite (softmax_row r))"
    using softmax_row_range [of _ r]
    by (simp add: list_all_iff in_unit_interval_def)
  moreover have "map finite_part (map Finite (softmax_row r)) = softmax_row r"
    by (simp add: finite_part_def comp_def)
  ultimately show ?thesis
    by (simp add: is_distribution_def softmax_row_sum [OF assms])
qed

lemma nn_Softmax_distribution:
  assumes "wf_tensor x" and "0 < ncols x"
  shows "list_all (\<lambda>r. is_distribution (map Finite r)) (rowsv (nn_Softmax x))"
proof -
  have "r \<noteq> []" if "r \<in> set (rowsv x)" for r
    using assms that by (auto simp add: wf_tensor_def list_all_iff)
  then show ?thesis
    by (simp add: nn_Softmax_def list_all_iff softmax_row_distribution)
qed

lemma nn_Softmax_example_01:
  "nn_Softmax \<lparr>nrows = 1, ncols = 2, rowsv = [[0, 1]]\<rparr>
     = \<lparr>nrows = 1, ncols = 2,
        rowsv = [[exp (- 1) / (exp (- 1) + 1), 1 / (exp (- 1) + 1)]]\<rparr>"
  by (simp add: nn_Softmax_def softmax_row_def Let_def)

subsection \<open>Networks of library modules\<close>

lemma Linear_forward_correct:
  assumes "is_Linear D_in D_out l" and "wf_tensor x" and "shape x = (N, D_in)"
  shows "\<exists>y. Linear_forward l x = Inr y \<and> wf_tensor y \<and> shape y = (N, D_out) \<and>
          (\<forall>i<N. \<forall>j<D_out.
             entry y i j = (\<Sum>k<D_in. entry x i k * entry (weight l) k j) + bias l ! j)"
proof -
  let ?B = "\<lparr>nrows = 1, ncols = length (bias l), rowsv = [bias l]\<rparr>"
  have "wf_tensor ?B" by (simp add: wf_tensor_def)
  moreover have "shape ?B = (1, D_out)"
    using assms(1) by (simp add: shape_def is_Linear_def)
  moreover have "wf_tensor (weight l)" "shape (weight l) = (D_in, D_out)"
    using assms(1) by (simp_all add: is_Linear_def)
  moreover have "entry ?B 0 j = bias l ! j" for j
    by (simp add: entry_def)
  ultimately show ?thesis
    using linear_transform_correct [OF assms(2), of "weight l" ?B N D_in D_out] assms(3)
    by (simp add: Linear_forward_def)
qed

lemma Linear_forward_shape:
  assumes "is_Linear d_in d_out l" and "wf_tensor x" and "shape x = (N, d_in)"
  shows "\<exists>y. Linear_forward l x = Inr y \<and> wf_tensor y \<and> shape y = (N, d_out)"
proof -
  let ?B = "\<lparr>nrows = 1, ncols = length (bias l), rowsv = [bias l]\<rparr>"
  have "wf_tensor ?B" by (simp add: wf_tensor_def)
  moreover have "shape ?B = (1, d_out)"
    using assms(1) by (simp add: shape_def is_Linear_def)
  moreover have "wf_tensor (weight l)" "shape (weight l) = (d_in, d_out)"
    using assms(1) by (simp_all add: is_Linear_def)
  ultimately obtain y where "linear_transform x (weight l) ?B = Inr y" "wf_tensor y"
    "shape y = (N, d_out)"
    using linear_transform_correct [OF assms(2), of "weight l" ?B N d_in d_out] assms(3)
    by blast
  then show ?thesis
    by (simp add: Linear_forward_def)
qed

lemma Network_forward_shape:
  assumes "is_Network net" and "wf_tensor x" and "shape x = (N, 784)"
  shows "\<exists>p. Network_forward net x = Inr p \<and> wf_tensor p \<and> shape p = (N, 10)"
proof -
  from assms(1) have l: "is_Linear 784 256 (hidden net)" "is_Linear 256 10 (output' net)"
    by (simp_all add: is_Network_def)
  from Linear_forward_shape [OF l(1) assms(2,3)]
  obtain a where a: "Linear_forward (hidden net) x = Inr a" "wf_tensor a" "shape a = (N, 256)"
    by blast
  from Linear_forward_shape [OF l(2), of "tmap sigmoid a" N] a(2,3)
  obtain b where b: "Linear_forward (output' net) (tmap sigmoid a) = Inr b" "wf_tensor b"
    "shape b = (N, 10)"
    by (auto simp add: tmap_wf tmap_shape)
  show ?thesis
    by (simp add: Network_forward_def a(1) b nn_Softmax_wf nn_Softmax_shape)
qed

lemma Network_forward_distribution:
  assumes "is_Network net" and "wf_tensor x" and "shape x = (N, 784)"
  shows "\<exists>p. Network_forward net x = Inr p \<and>
           list_all (\<lambda>r. is_distribution (map Finite r)) (rowsv p)"
proof -
  from assms(1) have l: "is_Linear 784 256 (hidden net)" "is_Linear 256 10 (output' net)"
    by (simp_all add: is_Network_def)
  from Linear_forward_shape [OF l(1) assms(2,3)]
  obtain a where a: "Linear_forward (hidden net) x = Inr a" "wf_tensor a" "shape a = (N, 256)"
    by blast
  from Linear_forward_shape [OF l(2), of "tmap sigmoid a" N] a(2,3)
  obtain b where b: "Linear_forward (output' net) (tmap sigmoid a) = Inr b" "wf_tensor b"
    "shape b = (N, 10)"
    by (auto simp add: tmap_wf tmap_shape)
  from b(3) have "0 < ncols b" by (simp add: shape_def)
  from nn_Softmax_distribution [OF b(2) this] show ?thesis
    by (simp add: Network_forward_def a(1) b(1))
qed

lemma Network_forward_Sequential:
  "Network_forward net x
     = Sequential_forward [Linear (hidden net), Sigmoid, Linear (output' net), Softmax] x"
proof (cases "Linear_forward (hidden net) x")
  case (Inl e)
  then show ?thesis by (simp add: Network_forward_def)
next
  case (Inr a)
  then show ?thesis
    by (cases "Linear_forward (output' net) (tmap sigmoid a)")
      (simp_all add: Network_forward_def)
qed

lemma Network_no_fc1:
  assumes "is_Network net"
  shows "\<not> is_Linear 784 128 (hidden net)"
  using assms by (simp add: is_Network_def is_Linear_def)

lemma model_forward_unfold:
  "Sequential_forward (model fc1 fc2 fc3) x =
     and_then (Linear_forward fc1 x) (\<lambda>a.
     and_then (Linear_forward fc2 (tmap relu a)) (\<lambda>b.
     and_then (Linear_forward fc3 (tmap relu b)) (\<lambda>c.
     Inr (nn_Softmax c))))"
proof (cases "Linear_forward fc1 x")
  case (Inl e)
  then show ?thesis by (simp add: model_def)
next
  case a: (Inr a)
  show ?thesis
  proof (cases "Linear_forward fc2 (tmap relu a)")
    case (Inl e)
    with a show ?thesis by (simp add: model_def)
  next
    case b: (Inr b)
    with a show ?thesis
      by (cases "Linear_forward fc3 (tmap relu b)") (simp_all add: model_def)
  qed
qed

lemma model_forward_shape:
  assumes "is_model fc1 fc2 fc3" and "wf_tensor x" and "shape x = (N, 784)"
  shows "\<exists>p. Sequential_forward (model fc1 fc2 fc3) x = Inr p \<and> wf_tensor p \<and> shape p = (N, 10)"
proof -
  from assms(1) have l: "is_Linear 784 128 fc1" "is_Linear 128 64 fc2" "is_Linear 64 10 fc3"
    by (simp_all add: is_model_def)
  from Linear_forward_shape [OF l(1) assms(2,3)]
  obtain a where a: "Linear_forward fc1 x = Inr a" "wf_tensor a" "shape a = (N, 128)"
    by blast
  from Linear_forward_shape [OF l(2), of "tmap relu a" N] a(2,3)
  obtain b where b: "Linear_forward fc2 (tmap relu a) = Inr b" "wf_tensor b" "shape b = (N, 64)"
    by (auto simp add: tmap_wf tmap_shape)
  from Linear_forward_shape [OF l(3), of "tmap relu b" N] b(2,3)
  obtain c where c: "Linear_forward fc3 (tmap relu b) = Inr c" "wf_tensor c" "shape c = (N, 10)"
    by (auto simp add: tmap_wf tmap_shape)
  show ?thesis
    by (simp add: model_def a(1) b(1) c nn_Softmax_wf nn_Softmax_shape)
qed

subsection \<open>Rounding to 32-bit floats\<close>

lemma exponent_from_spec:
  "e \<le> exponent_from n e a \<and> exponent_from n e a \<le> e + int n
   \<and> (e < exponent_from n e a \<longrightarrow> 2 powi (exponent_from n e a) \<le> a)
   \<and> (exponent_from n e a < e + int n \<longrightarrow> a < 2 powi (exponent_from n e a + 1))"
proof (induction n arbitrary: e)
  case 0
  show ?case by simp
next
  case (Suc n)
  show ?case
  proof (cases "2 powi (e + 1) \<le> a")
    case True
    with Suc [of "e + 1"] show ?thesis
      by (cases "exponent_from n (e + 1) a = e + 1") auto
  next
    case False
    then show ?thesis by simp
  qed
qed

lemma exponent_range: "- 126 \<le> exponent r" "exponent r \<le> 127"
  using exponent_from_spec [of "- 126" 253 "\<bar>r\<bar>"] by (simp_all add: exponent_def)

lemma exponent_le:
  assumes "- 126 < exponent r"
  shows "2 powi (exponent r) \<le> \<bar>r\<bar>"
  using exponent_from_spec [of "- 126" 253 "\<bar>r\<bar>"] assms by (simp add: exponent_def)

lemma exponent_gt:
  assumes "exponent r < 127"
  shows "\<bar>r\<bar> < 2 powi (exponent r + 1)"
  using exponent_from_spec [of "- 126" 253 "\<bar>r\<bar>"] assms by (simp add: exponent_def)

lemma powi_mono: "a \<le> b \<Longrightarrow> (2::real) powi a \<le> 2 powi b"
  by (rule power_int_increasing) simp_all

lemma powi_less_cancel:
  assumes "(2::real) powi a < 2 powi b"
  shows "a < b"
proof (rule ccontr)
  assume "\<not> a < b"
  then have "(2::real) powi b \<le> 2 powi a" by (intro powi_mono) simp
  with assms show False by simp
qed

lemma powi_add: "(2::real) powi (a + b) = 2 powi a * 2 powi b"
  by (rule power_int_add) simp

lemma powi_diff: "(2::real) powi (a - b) = 2 powi a / 2 powi b"
  by (rule power_int_diff) simp

lemma powi_pos [simp]: "0 < (2::real) powi a"
  by simp

lemma powi_nat: "0 \<le> a \<Longrightarrow> (2::real) powi a = of_int (2 ^ nat a)"
  by (simp add: power_int_def)

lemma exponent_normal:
  assumes "2 powi (- 126) \<le> \<bar>r\<bar>" and "\<bar>r\<bar> < 2 powi 128"
  shows "2 powi (exponent r) \<le> \<bar>r\<bar>" and "\<bar>r\<bar> < 2 powi (exponent r + 1)"
proof -
  show "2 powi (exponent r) \<le> \<bar>r\<bar>"
  proof (cases "- 126 < exponent r")
    case True
    then show ?thesis by (rule exponent_le)
  next
    case False
    with exponent_range(1) [of r] have "exponent r = - 126" by simp
    with assms(1) show ?thesis by simp
  qed
  show "\<bar>r\<bar> < 2 powi (exponent r + 1)"
  proof (cases "exponent r < 127")
    case True
    then show ?thesis by (rule exponent_gt)
  next
    case False
    with exponent_range(2) [of r] have "exponent r = 127" by simp
    with assms(2) show ?thesis by simp
  qed
qed

lemma exponent_unique:
  assumes "- 126 \<le> e" and "e \<le> 127" and "2 powi e \<le> \<bar>r\<bar>" and "\<bar>r\<bar> < 2 powi (e + 1)"
  shows "exponent r = e"
proof -
  have lo: "2 powi (- 126) \<le> \<bar>r\<bar>"
    using powi_mono [OF assms(1)] assms(3) by linarith
  have "e + 1 \<le> 128" using assms(2) by simp
  from powi_mono [OF this] assms(4) have hi: "\<bar>r\<bar> < 2 powi 128" by linarith
  note n = exponent_normal [OF lo hi]
  have "(2::real) powi e < 2 powi (exponent r + 1)"
    using assms(3) n(2) by linarith
  then have 1: "e < exponent r + 1" by (rule powi_less_cancel)
  have "(2::real) powi (exponent r) < 2 powi (e + 1)"
    using assms(4) n(1) by linarith
  then have 2: "exponent r < e + 1" by (rule powi_less_cancel)
  from 1 2 show ?thesis by simp
qed

lemma exponent_small:
  assumes "\<bar>r\<bar> < 2 powi (- 126)"
  shows "exponent r = - 126"
proof (rule ccontr)
  assume "exponent r \<noteq> - 126"
  with exponent_range(1) [of r] have l: "- 126 < exponent r" by simp
  then have "(2::real) powi (- 126) \<le> 2 powi (exponent r)" by (intro powi_mono) simp
  with exponent_le [OF l] assms show False by linarith
qed

lemma exponent_minus [simp]: "exponent (- r) = exponent r"
  by (simp add: exponent_def)

lemma round_even_of_int [simp]: "round_even (of_int z) = z"
  by (simp add: round_even_def)

lemma round_even_minus: "round_even (- q) = - round_even q"
proof (cases "q = of_int \<lfloor>q\<rfloor>")
  case True
  then have "round_even (- q) = round_even (of_int (- \<lfloor>q\<rfloor>))" by simp
  also have "\<dots> = - \<lfloor>q\<rfloor>" by (rule round_even_of_int)
  also have "\<dots> = - round_even (of_int \<lfloor>q\<rfloor>)" by simp
  finally show ?thesis using True by simp
next
  case False
  define n where "n = \<lfloor>q\<rfloor>"
  define d where "d = q - of_int n"
  have "of_int n \<le> q" "q < of_int n + 1"
    unfolding n_def by linarith+
  moreover from False have "q \<noteq> of_int n"
    unfolding n_def .
  ultimately have d: "0 < d" "d < 1"
    unfolding d_def by linarith+
  have f: "\<lfloor>- q\<rfloor> = - n - 1"
    using d unfolding d_def by (intro floor_unique) simp_all
  have d': "- q - of_int (- n - 1) = 1 - d"
    unfolding d_def by simp
  have e: "even (- n - 1) \<longleftrightarrow> odd n" by simp
  have "round_even (- q) =
      (if 1 - d < 1 / 2 then - n - 1 else if 1 / 2 < 1 - d then - n - 1 + 1
       else if odd n then - n - 1 else - n - 1 + 1)"
    unfolding round_even_def f d' e ..
  moreover have "round_even q =
      (if d < 1 / 2 then n else if 1 / 2 < d then n + 1 else if even n then n else n + 1)"
    unfolding round_even_def n_def [symmetric] d_def [symmetric] ..
  ultimately show ?thesis
    using d by (cases "d < 1 / 2"; cases "1 / 2 < d") simp_all
qed

lemma quantum_pos [simp]: "0 < quantum r"
  by (simp add: quantum_def)

lemma quantum_nonzero [simp]: "quantum r \<noteq> 0"
  using quantum_pos [of r] by linarith

lemma nearest_zero [simp]: "nearest 0 = 0"
  by (simp add: nearest_def round_even_def)

lemma nearest_minus: "nearest (- r) = - nearest r"
  by (simp add: nearest_def quantum_def round_even_minus)

lemma on_grid_add: "on_grid a \<Longrightarrow> on_grid b \<Longrightarrow> on_grid (a + b)"
proof -
  assume "on_grid a" and "on_grid b"
  then obtain m n :: int where "a = of_int m * 2 powi (- 149)" "b = of_int n * 2 powi (- 149)"
    unfolding on_grid_def by blast
  then have "a + b = of_int (m + n) * 2 powi (- 149)"
    by (simp only: of_int_add distrib_right)
  then show "on_grid (a + b)"
    unfolding on_grid_def by blast
qed

lemma on_grid_minus: "on_grid a \<Longrightarrow> on_grid (- a)"
proof -
  assume "on_grid a"
  then obtain m :: int where "a = of_int m * 2 powi (- 149)"
    unfolding on_grid_def by blast
  then have "- a = of_int (- m) * 2 powi (- 149)"
    by (simp only: of_int_minus mult_minus_left)
  then show "on_grid (- a)"
    unfolding on_grid_def by blast
qed

lemma on_grid_zero: "on_grid 0"
proof -
  have "(0::real) = of_int 0 * 2 powi (- 149)" by (simp only: of_int_0 mult_zero_left)
  then show ?thesis unfolding on_grid_def by blast
qed

lemma nearest_grid: "on_grid (nearest r)"
proof -
  define e where "e = exponent r"
  have "0 \<le> e + 126"
    using exponent_range(1) [of r] by (simp add: e_def)
  then have p: "(2::real) powi (e + 126) = of_int (2 ^ nat (e + 126))"
    by (rule powi_nat)
  have "(e + 126) + (- 149) = e - 23" by simp
  with powi_add [of "e + 126" "- 149"]
  have "(2::real) powi (e - 23) = 2 powi (e + 126) * 2 powi (- 149)"
    by (simp only:)
  then have "nearest r
      = of_int (2 ^ nat (e + 126)) * 2 powi (- 149) * of_int (round_even (r / quantum r))"
    by (simp only: nearest_def quantum_def e_def [symmetric] p)
  also have "\<dots> = of_int (2 ^ nat (e + 126) * round_even (r / quantum r)) * 2 powi (- 149)"
    by (simp only: of_int_mult mult_ac)
  finally show ?thesis
    unfolding on_grid_def by blast
qed

lemma mantissa_bound:
  assumes "(r::real) = of_int m * 2 powi g" and "\<bar>r\<bar> < 2 powi (g + int p)"
  shows "\<bar>m\<bar> < 2 ^ p"
proof -
  have "\<bar>r\<bar> = real_of_int \<bar>m\<bar> * 2 powi g"
    by (simp add: assms(1) abs_mult)
  moreover have "(2::real) powi (g + int p) = 2 ^ p * 2 powi g"
    using powi_add [of g "int p"] by (simp add: mult.commute)
  ultimately have "real_of_int \<bar>m\<bar> * 2 powi g < 2 ^ p * 2 powi g"
    using assms(2) by simp
  then have "real_of_int \<bar>m\<bar> < 2 ^ p"
    by (simp only: mult_less_cancel_right_pos [OF powi_pos])
  then have "real_of_int \<bar>m\<bar> < real_of_int (2 ^ p)" by simp
  then show ?thesis by (simp only: of_int_less_iff)
qed

lemma nearest_exact:
  assumes r: "r = of_int m * 2 powi f" and m: "\<bar>m\<bar> < 2 ^ 24" and f: "- 149 \<le> f"
  shows "nearest r = r"
proof -
  define e where "e = exponent r"
  have e: "e \<le> f + 23"
  proof (rule ccontr)
    assume "\<not> e \<le> f + 23"
    then have ge: "f + 24 \<le> e" by simp
    with f have "- 126 < exponent r" by (simp add: e_def)
    then have "2 powi e \<le> \<bar>r\<bar>" unfolding e_def by (rule exponent_le)
    moreover have "\<bar>r\<bar> < 2 powi (f + 24)"
    proof -
      have "\<bar>r\<bar> = real_of_int \<bar>m\<bar> * 2 powi f"
        by (simp add: r abs_mult)
      also have "\<dots> < 2 ^ 24 * 2 powi f"
      proof -
        have "real_of_int \<bar>m\<bar> < real_of_int (2 ^ 24)"
          using m by (simp only: of_int_less_iff)
        then show ?thesis by simp
      qed
      also have "\<dots> = 2 powi (f + 24)"
        using powi_add [of f 24] by simp
      finally show ?thesis .
    qed
    moreover have "(2::real) powi (f + 24) \<le> 2 powi e"
      using ge by (rule powi_mono)
    ultimately show False by linarith
  qed
  then have nn: "0 \<le> f - e + 23" by simp
  define P where "P = (2::real) powi (f - e + 23)"
  have "(f - e + 23) + (e - 23) = f" by simp
  with powi_add [of "f - e + 23" "e - 23"]
  have "(2::real) powi f = P * 2 powi (e - 23)"
    by (simp only: P_def)
  then have "r = (of_int m * P) * quantum r"
    by (simp only: r quantum_def e_def mult.assoc)
  then have "r / quantum r = (of_int m * P) * quantum r / quantum r"
    by simp
  also have "\<dots> = of_int m * P"
    by (simp only: nonzero_mult_div_cancel_right [OF quantum_nonzero])
  finally have "r / quantum r = of_int m * 2 powi (f - e + 23)"
    by (simp only: P_def)
  also have "\<dots> = of_int (m * 2 ^ nat (f - e + 23))"
    by (simp add: powi_nat [OF nn])
  finally have q: "r / quantum r = of_int (m * 2 ^ nat (f - e + 23))" .
  have "nearest r = quantum r * (r / quantum r)"
    unfolding nearest_def q round_even_of_int ..
  then show ?thesis by simp
qed

lemma nearest_scale_normal:
  assumes "2 powi (- 126) \<le> \<bar>r\<bar>" and "\<bar>r\<bar> < 2 powi 128"
    and "2 powi (- 126) \<le> \<bar>2 powi k * r\<bar>" and "\<bar>2 powi k * r\<bar> < 2 powi 128"
  shows "nearest (2 powi k * r) = 2 powi k * nearest r"
proof -
  define e where "e = exponent r"
  note n = exponent_normal [OF assms(1,2), folded e_def]
  have a: "\<bar>2 powi k * r\<bar> = 2 powi k * \<bar>r\<bar>"
    by (simp add: abs_mult)
  have lo: "2 powi (e + k) \<le> \<bar>2 powi k * r\<bar>"
  proof -
    have "2 powi k * 2 powi e \<le> 2 powi k * \<bar>r\<bar>"
      using n(1) by (intro mult_left_mono) simp_all
    then show ?thesis
      using powi_add [of k e] by (simp add: a add.commute)
  qed
  have hi: "\<bar>2 powi k * r\<bar> < 2 powi (e + k + 1)"
  proof -
    have "2 powi k * \<bar>r\<bar> < 2 powi k * 2 powi (e + 1)"
      using n(2) by (intro mult_strict_left_mono) simp_all
    also have "\<dots> = 2 powi (e + k + 1)"
      using powi_add [of k "e + 1"] by (simp add: add.commute add.left_commute)
    finally show ?thesis by (simp add: a)
  qed
  have "(2::real) powi (e + k) < 2 powi 128"
    using lo assms(4) by linarith
  then have "e + k < 128" by (rule powi_less_cancel)
  moreover have "(2::real) powi (- 126) < 2 powi (e + k + 1)"
    using hi assms(3) by linarith
  then have "- 126 < e + k + 1" by (rule powi_less_cancel)
  ultimately have ex: "exponent (2 powi k * r) = e + k"
    using lo hi by (intro exponent_unique) simp_all
  have q: "quantum (2 powi k * r) = 2 powi k * quantum r"
  proof -
    have "k + (e - 23) = e + k - 23" by simp
    with powi_add [of k "e - 23"]
    have "(2::real) powi (e + k - 23) = 2 powi k * 2 powi (e - 23)"
      by (simp only:)
    then show ?thesis by (simp add: quantum_def ex e_def [symmetric])
  qed
  have "2 powi k * r / (2 powi k * quantum r) = r / quantum r"
    by simp
  then show ?thesis
    by (simp add: nearest_def q)
qed

lemma nearest_small_exact:
  assumes "on_grid r" and "\<bar>r\<bar> < 2 powi (- 126)"
  shows "nearest r = r"
proof -
  from assms(1) obtain m :: int where m: "r = of_int m * 2 powi (- 149)"
    unfolding on_grid_def by blast
  from assms(2) have "\<bar>r\<bar> < 2 powi (- 149 + int 23)" by simp
  with m have "\<bar>m\<bar> < 2 ^ 23" by (rule mantissa_bound)
  then have "\<bar>m\<bar> < 2 ^ 24" by simp
  with m show ?thesis by (intro nearest_exact [of r m "- 149"]) simp_all
qed

lemma nearest_small_scaled:
  assumes g: "on_grid r" and g': "on_grid (2 powi k * r)"
    and s: "\<bar>r\<bar> < 2 powi (- 126)"
  shows "nearest (2 powi k * r) = 2 powi k * r"
proof (cases "0 \<le> k")
  case True
  from g obtain m :: int where m: "r = of_int m * 2 powi (- 149)"
    unfolding on_grid_def by blast
  from s have "\<bar>r\<bar> < 2 powi (- 149 + int 23)" by simp
  with m have "\<bar>m\<bar> < 2 ^ 23" by (rule mantissa_bound)
  then have m24: "\<bar>m\<bar> < 2 ^ 24" by simp
  have "k + (- 149) = k - 149" by simp
  with powi_add [of k "- 149"]
  have "(2::real) powi (k - 149) = 2 powi k * 2 powi (- 149)"
    by (simp only:)
  then have "2 powi k * r = of_int m * 2 powi (k - 149)"
    by (simp only: m mult_ac)
  with m24 show ?thesis
    using True by (intro nearest_exact [of _ m "k - 149"]) simp_all
next
  case False
  then have "(2::real) powi k \<le> 2 powi 0" by (intro powi_mono) simp
  then have "2 powi k * \<bar>r\<bar> \<le> 1 * \<bar>r\<bar>"
    by (intro mult_right_mono) simp_all
  then have "\<bar>2 powi k * r\<bar> < 2 powi (- 126)"
    using s by (simp add: abs_mult)
  with g' show ?thesis by (rule nearest_small_exact)
qed

lemma nearest_scale:
  assumes g: "on_grid r" and g': "on_grid (2 powi k * r)"
    and bd: "\<bar>r\<bar> < 2 powi 128"
    and bd': "\<bar>2 powi k * r\<bar> < 2 powi 128"
  shows "nearest (2 powi k * r) = 2 powi k * nearest r"
proof -
  consider (small) "\<bar>r\<bar> < 2 powi (- 126)"
    | (scaled) "\<bar>2 powi k * r\<bar> < 2 powi (- 126)"
    | (normal) "2 powi (- 126) \<le> \<bar>r\<bar> \<and> 2 powi (- 126) \<le> \<bar>2 powi k * r\<bar>"
    by linarith
  then show ?thesis
  proof cases
    case small
    have "nearest r = r"
      using g small by (rule nearest_small_exact)
    moreover have "nearest (2 powi k * r) = 2 powi k * r"
      using g g' small by (rule nearest_small_scaled)
    ultimately show ?thesis by simp
  next
    case scaled
    have undo: "2 powi (- k) * (2 powi k * r) = r"
      by (simp add: power_int_minus)
    from g have "on_grid (2 powi (- k) * (2 powi k * r))"
      by (simp only: undo)
    with g' have "nearest (2 powi (- k) * (2 powi k * r)) = 2 powi (- k) * (2 powi k * r)"
      using scaled by (rule nearest_small_scaled)
    then have "nearest r = r" by (simp only: undo)
    moreover have "nearest (2 powi k * r) = 2 powi k * r"
      using g' scaled by (rule nearest_small_exact)
    ultimately show ?thesis by simp
  next
    case normal
    with bd bd' show ?thesis by (intro nearest_scale_normal) simp_all
  qed
qed

lemma threshold_less: "float32_overflow_threshold < 2 powi 128"
  by (simp add: float32_overflow_threshold_def)

lemma round32_F32D:
  assumes "round32 r = F32 s"
  shows "\<bar>r\<bar> < float32_overflow_threshold" and "s = nearest r"
  using assms by (simp_all add: round32_def split: if_splits)

lemma round32_bound:
  assumes "round32 r = F32 s"
  shows "\<bar>r\<bar> < 2 powi 128"
  using round32_F32D(1) [OF assms] threshold_less by linarith

lemma round32_grid:
  assumes "round32 r = F32 s"
  shows "on_grid s"
  using round32_F32D(2) [OF assms] nearest_grid [of r] by simp

lemma nearest_signed_scale:
  assumes c: "c = 2 powi k \<or> c = - (2 powi k)"
    and g: "on_grid r" and g': "on_grid (c * r)"
    and bd: "\<bar>r\<bar> < 2 powi 128" and bd': "\<bar>c * r\<bar> < 2 powi 128"
  shows "nearest (c * r) = c * nearest r"
proof -
  from c show ?thesis
  proof
    assume "c = 2 powi k"
    with g g' bd bd' show ?thesis
      by (simp add: nearest_scale)
  next
    assume n: "c = - (2 powi k)"
    then have e: "c * r = - (2 powi k * r)" by simp
    from g' have "on_grid (- (c * r))" by (rule on_grid_minus)
    then have 1: "on_grid (2 powi k * r)" by (simp add: e)
    from bd' have 2: "\<bar>2 powi k * r\<bar> < 2 powi 128" by (simp add: e)
    have "nearest (c * r) = - nearest (2 powi k * r)"
      by (simp only: e nearest_minus)
    also have "\<dots> = - (2 powi k * nearest r)"
      by (simp only: nearest_scale [OF g 1 bd 2])
    finally show ?thesis by (simp add: n)
  qed
qed

lemma round32_signed_scale:
  assumes c: "c = 2 powi k \<or> c = - (2 powi k)"
    and g: "on_grid r" and g': "on_grid (c * r)"
    and r: "round32 r = F32 s" and r': "round32 (c * r) = F32 s'"
  shows "s' = c * s"
proof -
  have "s' = nearest (c * r)" using r' by (rule round32_F32D(2))
  also have "\<dots> = c * nearest r"
    using c g g' round32_bound [OF r] round32_bound [OF r'] by (rule nearest_signed_scale)
  also have "nearest r = s" using r by (rule round32_F32D(2) [symmetric])
  finally show ?thesis .
qed

lemma add32_F32D:
  assumes "add32 u w = F32 s"
  shows "\<exists>a b. u = F32 a \<and> w = F32 b \<and> round32 (a + b) = F32 s"
  using assms by (cases u; cases w) simp_all

lemma reduce32_scale:
  assumes c: "c = 2 powi k \<or> c = - (2 powi k)"
    and len: "length row' = length row"
    and row: "\<forall>j<length row. \<exists>v. row ! j = F32 v \<and> on_grid v
                 \<and> row' ! j = F32 (c * v) \<and> on_grid (c * v)"
    and s: "reduce32 ord row = F32 s" and s': "reduce32 ord row' = F32 s'"
  shows "s' = c * s \<and> on_grid s \<and> on_grid s'"
  using s s'
proof (induction ord arbitrary: s s')
  case Zero
  then show ?case by (simp add: on_grid_zero)
next
  case (Elem j)
  show ?case
  proof (cases "j < length row")
    case True
    with row obtain v where "row ! j = F32 v" "on_grid v" "row' ! j = F32 (c * v)"
      "on_grid (c * v)"
      by blast
    with Elem True len show ?thesis by simp
  next
    case False
    with Elem len show ?thesis by (simp add: on_grid_zero)
  qed
next
  case (Plus l r)
  from Plus.prems(1) have "add32 (reduce32 l row) (reduce32 r row) = F32 s" by simp
  from add32_F32D [OF this]
  obtain a b where ab: "reduce32 l row = F32 a" "reduce32 r row = F32 b"
    "round32 (a + b) = F32 s"
    by blast
  from Plus.prems(2) have "add32 (reduce32 l row') (reduce32 r row') = F32 s'" by simp
  from add32_F32D [OF this]
  obtain a' b' where ab': "reduce32 l row' = F32 a'"
    "reduce32 r row' = F32 b'" "round32 (a' + b') = F32 s'"
    by blast
  from Plus.IH(1) [OF ab(1) ab'(1)] have l: "a' = c * a" "on_grid a" "on_grid a'"
    by blast+
  from Plus.IH(2) [OF ab(2) ab'(2)] have r: "b' = c * b" "on_grid b" "on_grid b'"
    by blast+
  have e: "a' + b' = c * (a + b)"
    by (simp add: l(1) r(1) distrib_left)
  have g: "on_grid (a + b)" using l(2) r(2) by (rule on_grid_add)
  have "on_grid (a' + b')" using l(3) r(3) by (rule on_grid_add)
  then have g': "on_grid (c * (a + b))" by (simp only: e)
  from ab'(3) have "round32 (c * (a + b)) = F32 s'" by (simp only: e)
  with c g g' ab(3) have "s' = c * s" by (rule round32_signed_scale)
  moreover have "on_grid s" using ab(3) by (rule round32_grid)
  moreover have "on_grid s'" using ab'(3) by (rule round32_grid)
  ultimately show ?case by simp
qed

lemma round32_power_of_two:
  assumes "- 149 \<le> k" and "k \<le> 127" and c: "c = 2 powi k \<or> c = - (2 powi k)"
  shows "round32 c = F32 c"
proof -
  have "(2::real) powi k \<le> 2 powi 127"
    using assms(2) by (rule powi_mono)
  also have "\<dots> < float32_overflow_threshold"
    by (simp add: float32_overflow_threshold_def)
  finally have "\<bar>c\<bar> < float32_overflow_threshold"
    using c by auto
  moreover have "nearest c = c"
  proof -
    from c obtain m :: int where "c = of_int m * 2 powi k" "\<bar>m\<bar> < 2 ^ 24"
    proof
      assume "c = 2 powi k"
      then have "c = of_int 1 * 2 powi k" by simp
      then show ?thesis by (rule that) simp
    next
      assume "c = - (2 powi k)"
      then have "c = of_int (- 1) * 2 powi k" by simp
      then show ?thesis by (rule that) simp
    qed
    then show ?thesis using assms(1) by (rule nearest_exact)
  qed
  ultimately show ?thesis by (simp add: round32_def)
qed

lemma scale32_simps:
  "nrows (scale32 c x) = nrows x" "ncols (scale32 c x) = ncols x"
  "rowsv (scale32 c x) = map (map (mul32 (round32 c))) (rowsv x)"
  by (simp_all add: scale32_def tmap_def)

lemma scale32_wf: "wf_tensor x \<Longrightarrow> wf_tensor (scale32 c x)"
  by (simp add: scale32_def tmap_wf)

lemma softmax32_Inr:
  assumes "wf_tensor x" and "0 < nrows x"
  shows "softmax32 ord x = Inr \<lparr>nrows = nrows x, ncols = ncols x,
      rowsv = map (\<lambda>i. map (\<lambda>j. div32 (entry x i j) (reduce32 ord (rowsv x ! i)))
                          [0..<ncols x])
                [0..<nrows x]\<rparr>"
proof -
  let ?sums = "map (reduce32 ord) (rowsv x)"
  have len: "length (rowsv x) = nrows x"
    using assms(1) by (simp add: wf_tensor_def)
  then have "length ?sums = nrows x" by simp
  from view_rows_column [OF this assms(2)]
  have v: "view_rows (nrows x) ?sums
      = Inr \<lparr>nrows = nrows x, ncols = Suc 0, rowsv = map (\<lambda>i. [?sums ! i]) [0..<nrows x]\<rparr>" .
  have "softmax32 ord x = Inr \<lparr>nrows = nrows x, ncols = ncols x,
      rowsv = map (\<lambda>i. map (\<lambda>j. div32 (entry x i j) (?sums ! i)) [0..<ncols x])
                [0..<nrows x]\<rparr>"
    by (simp add: softmax32_def v broadcast2_column)
  also have "map (\<lambda>i. map (\<lambda>j. div32 (entry x i j) (?sums ! i)) [0..<ncols x]) [0..<nrows x]
     = map (\<lambda>i. map (\<lambda>j. div32 (entry x i j) (reduce32 ord (rowsv x ! i))) [0..<ncols x])
                [0..<nrows x]"
    using len by (intro map_cong refl) simp
  finally show ?thesis .
qed

lemma softmax32_empty_batch:
  assumes "nrows x = 0"
  shows "softmax32 ord x = Inl (ViewError 0 (length (rowsv x)))"
  using assms by (simp add: softmax32_def view_rows_def)

lemma softmax32_scale:
  assumes wf: "wf_tensor x"
    and k: "- 149 \<le> k" "k \<le> 127" and c: "c = 2 powi k \<or> c = - (2 powi k)"
    and ent: "\<forall>i<nrows x. \<forall>j<ncols x.
                \<exists>v. entry x i j = F32 v \<and> round32 v = F32 v \<and> round32 (c * v) = F32 (c * v)"
    and sums: "\<forall>i<nrows x. \<exists>s. reduce32 ord (rowsv x ! i) = F32 s \<and> s \<noteq> 0"
    and sums': "\<forall>i<nrows x. \<exists>s. reduce32 ord (rowsv (scale32 c x) ! i) = F32 s"
  shows "softmax32 ord (scale32 c x) = softmax32 ord x"
proof (cases "nrows x = 0")
  case True
  then show ?thesis
    by (simp add: softmax32_empty_batch scale32_simps)
next
  case False
  then have pos: "0 < nrows x" by simp
  have len: "length (rowsv x) = nrows x"
    using wf by (simp add: wf_tensor_def)
  have rc: "round32 c = F32 c"
    using k c by (rule round32_power_of_two)
  have c0: "c \<noteq> 0"
    using c powi_pos [of k] by auto
  have cell: "div32 (entry (scale32 c x) i j) (reduce32 ord (rowsv (scale32 c x) ! i))
      = div32 (entry x i j) (reduce32 ord (rowsv x ! i))"
    if i: "i < nrows x" and j: "j < ncols x" for i j
  proof -
    define row where "row = rowsv x ! i"
    define row' where "row' = rowsv (scale32 c x) ! i"
    have lrow: "length row = ncols x"
      unfolding row_def using wf i by (rule wf_tensorD)
    have row': "row' = map (mul32 (F32 c)) row"
      using i len by (simp add: row'_def row_def scale32_simps rc)
    have rows: "\<exists>v. row ! j' = F32 v \<and> on_grid v \<and> row' ! j' = F32 (c * v) \<and> on_grid (c * v)"
      if "j' < length row" for j'
    proof -
      from that lrow have "j' < ncols x" by simp
      with ent i obtain v where v: "entry x i j' = F32 v" "round32 v = F32 v"
        "round32 (c * v) = F32 (c * v)"
        by blast
      have "row ! j' = F32 v"
        using v(1) by (simp add: row_def entry_def)
      moreover have "on_grid v" using v(2) by (rule round32_grid)
      moreover have "row' ! j' = F32 (c * v)"
        using that \<open>row ! j' = F32 v\<close> v(3) by (simp add: row')
      moreover have "on_grid (c * v)" using v(3) by (rule round32_grid)
      ultimately show ?thesis by blast
    qed
    from sums i obtain s where s: "reduce32 ord row = F32 s" "s \<noteq> 0"
      unfolding row_def by blast
    from sums' i obtain s' where s': "reduce32 ord row' = F32 s'"
      unfolding row'_def by blast
    have "length row' = length row" by (simp add: row')
    from reduce32_scale [OF c this _ s(1) s'] rows have ss: "s' = c * s"
      by blast
    from rows [of j] j lrow obtain v where v: "row ! j = F32 v" "row' ! j = F32 (c * v)"
      by auto
    have "entry (scale32 c x) i j = F32 (c * v)"
      using v(2) by (simp add: entry_def row'_def)
    moreover have "entry x i j = F32 v"
      using v(1) by (simp add: entry_def row_def)
    moreover have "div32 (F32 (c * v)) (F32 (c * s)) = div32 (F32 v) (F32 s)"
      using c0 s(2) by simp
    ultimately show ?thesis
      using s(1) s' ss by (simp add: row_def [symmetric] row'_def [symmetric])
  qed
  have "softmax32 ord (scale32 c x) = Inr \<lparr>nrows = nrows x, ncols = ncols x,
      rowsv = map (\<lambda>i. map (\<lambda>j. div32 (entry (scale32 c x) i j)
                                    (reduce32 ord (rowsv (scale32 c x) ! i))) [0..<ncols x])
                [0..<nrows x]\<rparr>"
    using softmax32_Inr [OF scale32_wf [OF wf], of c ord] pos by (simp add: scale32_simps)
  also have "map (\<lambda>i. map (\<lambda>j. div32 (entry (scale32 c x) i j)
                                    (reduce32 ord (rowsv (scale32 c x) ! i))) [0..<ncols x])
                [0..<nrows x]
     = map (\<lambda>i. map (\<lambda>j. div32 (entry x i j) (reduce32 ord (rowsv x ! i))) [0..<ncols x])
                [0..<nrows x]"
    by (intro map_cong refl) (simp add: cell)
  also have "Inr \<lparr>nrows = nrows x, ncols = ncols x, rowsv = \<dots>\<rparr> = softmax32 ord x"
    by (rule softmax32_Inr [OF wf pos, symmetric])
  finally show ?thesis .
qed

lemma round32_exact:
  assumes "r = of_int m * 2 powi f" and "\<bar>m\<bar> < 2 ^ 24" and "- 149 \<le> f"
    and "\<bar>r\<bar> < float32_overflow_threshold"
  shows "round32 r = F32 r"
  using nearest_exact [OF assms(1-3)] assms(4) by (simp add: round32_def)

lemma round32_eval:
  assumes "- 126 \<le> e" and "e \<le> 127" and "2 powi e \<le> \<bar>r\<bar>" and "\<bar>r\<bar> < 2 powi (e + 1)"
    and "\<bar>r\<bar> < float32_overflow_threshold"
    and "round_even (r / 2 powi (e - 23)) = n"
  shows "round32 r = F32 (2 powi (e - 23) * of_int n)"
proof -
  have "exponent r = e" using assms(1-4) by (rule exponent_unique)
  then have "nearest r = 2 powi (e - 23) * of_int n"
    using assms(6) by (simp add: nearest_def quantum_def)
  with assms(5) show ?thesis by (simp add: round32_def)
qed

lemma round32_overflow:
  assumes "float32_overflow_threshold \<le> r"
  shows "round32 r = PosInf"
proof -
  have "0 < float32_overflow_threshold" by (simp add: float32_overflow_threshold_def)
  with assms show ?thesis by (simp add: round32_def)
qed

lemma round32_small_int:
  assumes "\<bar>m\<bar> < 2 ^ 24"
  shows "round32 (of_int m) = F32 (of_int m)"
proof -
  have "real_of_int \<bar>m\<bar> < real_of_int (2 ^ 24)"
    using assms by (simp only: of_int_less_iff)
  then have "\<bar>real_of_int m\<bar> < float32_overflow_threshold"
    by (simp add: float32_overflow_threshold_def)
  moreover have "real_of_int m = of_int m * 2 powi 0" by simp
  ultimately show ?thesis
    using assms by (intro round32_exact [of _ m 0]) simp_all
qed

lemma softmax32_pair:
  assumes "round32 a = F32 a"
  shows "softmax32 (left_to_right 2) \<lparr>nrows = 1, ncols = 2, rowsv = [[F32 a, F32 b]]\<rparr>
    = Inr \<lparr>nrows = 1, ncols = 2,
           rowsv = [[div32 (F32 a) (round32 (a + b)), div32 (F32 b) (round32 (a + b))]]\<rparr>"
  using assms
  by (simp add: softmax32_def view_rows_def broadcast2_def bdim_def bat_def upt_rec
      numeral_2_eq_2)

lemma scale32_pair:
  "scale32 c \<lparr>nrows = 1, ncols = 2, rowsv = [[u, w]]\<rparr>
    = \<lparr>nrows = 1, ncols = 2, rowsv = [[mul32 (round32 c) u, mul32 (round32 c) w]]\<rparr>"
  by (simp add: scale32_def tmap_def)

lemma shift32_pair:
  "shift32 c \<lparr>nrows = 1, ncols = 2, rowsv = [[u, w]]\<rparr>
    = \<lparr>nrows = 1, ncols = 2, rowsv = [[add32 u (round32 c), add32 w (round32 c)]]\<rparr>"
  by (simp add: shift32_def tmap_def)

lemma round32_values:
  "round32 0 = F32 0" "round32 1 = F32 1" "round32 2 = F32 2" "round32 3 = F32 3"
  "round32 4 = F32 4" "round32 6 = F32 6" "round32 8 = F32 8"
  using round32_small_int [of 0] round32_small_int [of 1] round32_small_int [of 2]
    round32_small_int [of 3] round32_small_int [of 4] round32_small_int [of 6]
    round32_small_int [of 8]
  by simp_all

lemma round32_third: "round32 (1 / 3) = F32 (11184811 / 33554432)"
  using round32_eval [of "- 2" "1 / 3" 11184811]
  by (simp add: float32_overflow_threshold_def round_even_def)

lemma round32_two_thirds: "round32 (2 / 3) = F32 (11184811 / 16777216)"
  using round32_eval [of "- 1" "2 / 3" 11184811]
  by (simp add: float32_overflow_threshold_def round_even_def)

lemma round32_tenth: "round32 (1 / 10) = F32 (13421773 / 134217728)"
  using round32_eval [of "- 4" "1 / 10" 13421773]
  by (simp add: float32_overflow_threshold_def round_even_def)

lemma softmax32_overflow_example:
  "softmax32 (left_to_right 2)
      (scale32 2 \<lparr>nrows = 1, ncols = 2, rowsv = [[F32 (2 ^ 126), F32 (2 ^ 126)]]\<rparr>)
     = Inr \<lparr>nrows = 1, ncols = 2, rowsv = [[F32 0, F32 0]]\<rparr>"
  and softmax32_overflow_example_unscaled:
  "softmax32 (left_to_right 2)
      \<lparr>nrows = 1, ncols = 2, rowsv = [[F32 (2 ^ 126), F32 (2 ^ 126)]]\<rparr>
     = Inr \<lparr>nrows = 1, ncols = 2, rowsv = [[F32 (1 / 2), F32 (1 / 2)]]\<rparr>"
  and reduce32_overflow_example:
  "reduce32 (left_to_right 2) [F32 (2 ^ 126), F32 (2 ^ 126)] = F32 (2 ^ 127)"
proof -
  define a where "a = (2::real) ^ 126"
  have pos: "0 < a" by (simp add: a_def)
  have ra: "round32 a = F32 a"
    by (rule round32_exact [of _ 1 126])
      (simp_all add: a_def float32_overflow_threshold_def)
  have r2a: "round32 (2 * a) = F32 (2 * a)"
    by (rule round32_exact [of _ 1 127])
      (simp_all add: a_def float32_overflow_threshold_def)
  have r4a: "round32 (4 * a) = PosInf"
    by (rule round32_overflow) (simp add: a_def float32_overflow_threshold_def)
  have rh: "round32 (1 / 2) = F32 (1 / 2)"
    by (rule round32_exact [of _ 1 "- 1"]) (simp_all add: float32_overflow_threshold_def)
  have s: "scale32 2 \<lparr>nrows = 1, ncols = 2, rowsv = [[F32 a, F32 a]]\<rparr>
      = \<lparr>nrows = 1, ncols = 2, rowsv = [[F32 (2 * a), F32 (2 * a)]]\<rparr>"
    unfolding scale32_pair by (simp add: round32_values r2a)
  have 1: "softmax32 (left_to_right 2)
      (scale32 2 \<lparr>nrows = 1, ncols = 2, rowsv = [[F32 a, F32 a]]\<rparr>)
     = Inr \<lparr>nrows = 1, ncols = 2, rowsv = [[F32 0, F32 0]]\<rparr>"
    unfolding s using softmax32_pair [OF r2a, of "2 * a"] by (simp add: r4a)
  have 2: "softmax32 (left_to_right 2)
      \<lparr>nrows = 1, ncols = 2, rowsv = [[F32 a, F32 a]]\<rparr>
     = Inr \<lparr>nrows = 1, ncols = 2, rowsv = [[F32 (1 / 2), F32 (1 / 2)]]\<rparr>"
    using softmax32_pair [OF ra, of a] pos by (simp add: r2a rh)
  have 3: "reduce32 (left_to_right 2) [F32 a, F32 a] = F32 (2 * a)"
    by (simp add: numeral_2_eq_2 ra r2a)
  show "softmax32 (left_to_right 2)
      (scale32 2 \<lparr>nrows = 1, ncols = 2, rowsv = [[F32 (2 ^ 126), F32 (2 ^ 126)]]\<rparr>)
     = Inr \<lparr>nrows = 1, ncols = 2, rowsv = [[F32 0, F32 0]]\<rparr>"
    using 1 unfolding a_def .
  show "softmax32 (left_to_right 2)
      \<lparr>nrows = 1, ncols = 2, rowsv = [[F32 (2 ^ 126), F32 (2 ^ 126)]]\<rparr>
     = Inr \<lparr>nrows = 1, ncols = 2, rowsv = [[F32 (1 / 2), F32 (1 / 2)]]\<rparr>"
    using 2 unfolding a_def .
  have "2 * (2::real) ^ 126 = 2 ^ 127" by simp
  with 3 show "reduce32 (left_to_right 2) [F32 (2 ^ 126), F32 (2 ^ 126)] = F32 (2 ^ 127)"
    unfolding a_def by (simp only:)
qed

lemma round32_tenth_exact:
  "round32 (13421773 / 134217728) = F32 (13421773 / 134217728)"
  "round32 (13421773 / 67108864) = F32 (13421773 / 67108864)"
  using round32_exact [of "13421773 / 134217728" 13421773 "- 27"]
    round32_exact [of "13421773 / 67108864" 13421773 "- 26"]
  by (simp_all add: float32_overflow_threshold_def)

lemma round32_tenth_sum: "round32 (40265319 / 134217728) = F32 (5033165 / 16777216)"
  using round32_eval [of "- 2" "40265319 / 134217728" 10066330]
  by (simp add: float32_overflow_threshold_def round_even_def)

lemma round32_tenth_quotients:
  "round32 (13421773 / 40265320) = F32 (5592405 / 16777216)"
  "round32 (13421773 / 20132660) = F32 (5592405 / 8388608)"
  using round32_eval [of "- 2" "13421773 / 40265320" 11184810]
    round32_eval [of "- 1" "13421773 / 20132660" 11184810]
  by (simp_all add: float32_overflow_threshold_def round_even_def)

lemma softmax32_rounding_example:
  "softmax32 (left_to_right 2)
      (scale32 (1 / 10) \<lparr>nrows = 1, ncols = 2, rowsv = [[F32 1, F32 2]]\<rparr>)
     = Inr \<lparr>nrows = 1, ncols = 2,
            rowsv = [[F32 (5592405 / 16777216), F32 (5592405 / 8388608)]]\<rparr>"
proof -
  have s: "scale32 (1 / 10) \<lparr>nrows = 1, ncols = 2, rowsv = [[F32 1, F32 2]]\<rparr>
      = \<lparr>nrows = 1, ncols = 2,
         rowsv = [[F32 (13421773 / 134217728), F32 (13421773 / 67108864)]]\<rparr>"
    unfolding scale32_pair by (simp add: round32_tenth round32_tenth_exact)
  show ?thesis
    unfolding s
    using softmax32_pair [OF round32_tenth_exact(1), of "13421773 / 67108864"]
    by (simp add: round32_tenth_sum round32_tenth_quotients)
qed

lemma softmax32_rounding_example_unscaled:
  "softmax32 (left_to_right 2) \<lparr>nrows = 1, ncols = 2, rowsv = [[F32 1, F32 2]]\<rparr>
     = Inr \<lparr>nrows = 1, ncols = 2,
            rowsv = [[F32 (11184811 / 33554432), F32 (11184811 / 16777216)]]\<rparr>"
  using softmax32_pair [OF round32_values(2), of 2]
  by (simp add: round32_values round32_third round32_two_thirds)

lemma softmax32_shift_example:
  "softmax32 (left_to_right 2)
      (shift32 1 \<lparr>nrows = 1, ncols = 2, rowsv = [[F32 0, F32 1]]\<rparr>)
     = Inr \<lparr>nrows = 1, ncols = 2,
            rowsv = [[F32 (11184811 / 33554432), F32 (11184811 / 16777216)]]\<rparr>"
  and softmax32_shift_example_unshifted:
  "softmax32 (left_to_right 2) \<lparr>nrows = 1, ncols = 2, rowsv = [[F32 0, F32 1]]\<rparr>
     = Inr \<lparr>nrows = 1, ncols = 2, rowsv = [[F32 0, F32 1]]\<rparr>"
proof -
  have s: "shift32 1 \<lparr>nrows = 1, ncols = 2, rowsv = [[F32 0, F32 1]]\<rparr>
      = \<lparr>nrows = 1, ncols = 2, rowsv = [[F32 1, F32 2]]\<rparr>"
    unfolding shift32_pair by (simp add: round32_values)
  show "softmax32 (left_to_right 2)
      (shift32 1 \<lparr>nrows = 1, ncols = 2, rowsv = [[F32 0, F32 1]]\<rparr>)
     = Inr \<lparr>nrows = 1, ncols = 2,
            rowsv = [[F32 (11184811 / 33554432), F32 (11184811 / 16777216)]]\<rparr>"
    unfolding s by (rule softmax32_rounding_example_unscaled)
  show "softmax32 (left_to_right 2) \<lparr>nrows = 1, ncols = 2, rowsv = [[F32 0, F32 1]]\<rparr>
     = Inr \<lparr>nrows = 1, ncols = 2, rowsv = [[F32 0, F32 1]]\<rparr>"
    using softmax32_pair [OF round32_values(1), of 1]
    by (simp add: round32_values)
qed

section \<open>The claims\<close>

text \<open>
  C1.  The specification has softmax map every row to
  \<open>e^(x_i - m) / \<Sum>_k e^(x_k - m)\<close>, and the notebook's text gives the same
  function as \<open>e^(x_i) / \<Sum>_k e^(x_k)\<close>.  The function \<open>softmax\<close> that the
  notebook defines divides by the sum of the raw entries instead: on the row
  \<open>[0, 1]\<close> it returns \<open>[0, 1]\<close>, where the formula gives
  \<open>[e^(-1) / (e^(-1) + 1), 1 / (e^(-1) + 1)]\<close>, whose first entry is positive.
\<close>

theorem softmax_not_exponential:
  "softmax \<lparr>nrows = 1, ncols = 2, rowsv = [[0, 1]]\<rparr>
     = Inr \<lparr>nrows = 1, ncols = 2, rowsv = [[Finite 0, Finite 1]]\<rparr>
   \<and> tmap Finite (nn_Softmax \<lparr>nrows = 1, ncols = 2, rowsv = [[0, 1]]\<rparr>)
     = \<lparr>nrows = 1, ncols = 2,
        rowsv = [[Finite (exp (- 1) / (exp (- 1) + 1)), Finite (1 / (exp (- 1) + 1))]]\<rparr>
   \<and> softmax \<lparr>nrows = 1, ncols = 2, rowsv = [[0, 1]]\<rparr>
     \<noteq> Inr (tmap Finite (nn_Softmax \<lparr>nrows = 1, ncols = 2, rowsv = [[0, 1]]\<rparr>))"
proof -
  have "exp (- 1) + (1::real) \<noteq> 0"
    using exp_gt_zero [of "- 1 :: real"] by linarith
  then show ?thesis
    unfolding softmax_example_01 nn_Softmax_example_01 by (simp add: tmap_def)
qed

text \<open>
  C2.  Every row of the softmax output should sum to 1 within \<open>1e-6\<close> and
  have all its entries in \<open>[0, 1]\<close>.  The notebook's \<open>softmax\<close> returns the
  row \<open>[2, -1]\<close> unchanged: it sums to 1, but neither entry lies in
  \<open>[0, 1]\<close>, so the row is no probability distribution.  (The forward pass of
  \<open>Network\<close> ends in the library softmax, whose rows are distributions:
  \<open>Network_forward_distribution\<close>.)
\<close>

theorem softmax_not_distribution:
  "softmax \<lparr>nrows = 1, ncols = 2, rowsv = [[2, - 1]]\<rparr>
     = Inr \<lparr>nrows = 1, ncols = 2, rowsv = [[Finite 2, Finite (- 1)]]\<rparr>
   \<and> \<not> in_unit_interval (Finite 2) \<and> \<not> in_unit_interval (Finite (- 1))
   \<and> \<not> is_distribution [Finite 2, Finite (- 1)]"
  unfolding softmax_example_neg by (simp add: is_distribution_def in_unit_interval_def)

text \<open>
  C3.  Softmax should be invariant under adding a scalar to every entry of a
  row.  The notebook's \<open>softmax\<close> is not: it maps \<open>[0, 1]\<close> to \<open>[0, 1]\<close>
  and the shifted row \<open>[1, 2]\<close> to \<open>[1/3, 2/3]\<close>.
\<close>

theorem softmax_not_shift_invariant:
  "softmax \<lparr>nrows = 1, ncols = 2, rowsv = [[0, 1]]\<rparr>
     = Inr \<lparr>nrows = 1, ncols = 2, rowsv = [[Finite 0, Finite 1]]\<rparr>
   \<and> softmax (shift 1 \<lparr>nrows = 1, ncols = 2, rowsv = [[0, 1]]\<rparr>)
     = Inr \<lparr>nrows = 1, ncols = 2, rowsv = [[Finite (1 / 3), Finite (2 / 3)]]\<rparr>
   \<and> softmax (shift 1 \<lparr>nrows = 1, ncols = 2, rowsv = [[0, 1]]\<rparr>)
     \<noteq> softmax \<lparr>nrows = 1, ncols = 2, rowsv = [[0, 1]]\<rparr>"
  unfolding softmax_example_01 softmax_example_12 by simp

text \<open>
  C4.  For every batch size \<open>N\<close> and correctly shaped parameters, the forward
  pass maps an input batch of shape \<open>(N, 784)\<close> to an output of shape
  \<open>(N, 10)\<close> and raises no error: both the hand-written network of the first
  exercise (\<open>out\<close>, with weights of shape \<open>(784, 256)\<close> and \<open>(256, 10)\<close>
  and biases of shape \<open>(1, 256)\<close> and \<open>(1, 10)\<close>) and \<open>Network.forward\<close>.
\<close>

theorem forward_output_shape:
  assumes "wf_tensor x" and "shape x = (N, 784)"
  shows "(wf_tensor W1 \<and> shape W1 = (784, 256) \<and> wf_tensor B1 \<and> shape B1 = (1, 256) \<and>
          wf_tensor W2 \<and> shape W2 = (256, 10) \<and> wf_tensor B2 \<and> shape B2 = (1, 10)
          \<longrightarrow> (\<exists>y. out x W1 B1 W2 B2 = Inr y \<and> wf_tensor y \<and> shape y = (N, 10)))
       \<and> (is_Network net
          \<longrightarrow> (\<exists>p. Network_forward net x = Inr p \<and> wf_tensor p \<and> shape p = (N, 10)))"
  using out_shape [OF assms, of W1 256 B1 W2 10 B2] Network_forward_shape [OF _ assms, of net]
  by blast

theorem forward_output_shape_witness:
  "wf_tensor (zeros 1 784) \<and> shape (zeros 1 784) = (1, 784)
   \<and> (\<exists>y. out (zeros 1 784) (zeros 784 256) (zeros 1 256) (zeros 256 10) (zeros 1 10) = Inr y
          \<and> wf_tensor y \<and> shape y = (1, 10))
   \<and> is_Network \<lparr>hidden = zero_layer 784 256, output' = zero_layer 256 10\<rparr>
   \<and> (\<exists>p. Network_forward \<lparr>hidden = zero_layer 784 256, output' = zero_layer 256 10\<rparr>
            (zeros 1 784) = Inr p \<and> wf_tensor p \<and> shape p = (1, 10))"
proof -
  have n: "is_Network \<lparr>hidden = zero_layer 784 256, output' = zero_layer 256 10\<rparr>"
    by (simp add: is_Network_def zero_layer_is_Linear)
  show ?thesis
    using forward_output_shape [where x = "zeros 1 784" and N = 1 and ?W1.0 = "zeros 784 256"
        and ?B1.0 = "zeros 1 256" and ?W2.0 = "zeros 256 10" and ?B2.0 = "zeros 1 10"
        and net = "\<lparr>hidden = zero_layer 784 256, output' = zero_layer 256 10\<rparr>"]
      n
    by (simp add: zeros_wf zeros_shape)
qed

text \<open>
  C5.  For an input batch of shape \<open>(N, D_in)\<close>, a weight matrix of shape
  \<open>(D_in, D_out)\<close> and a bias of \<open>D_out\<close> values, the linear transform
  returns a batch of shape \<open>(N, D_out)\<close> whose row \<open>i\<close> is the product of
  row \<open>i\<close> of the input with the weight matrix, plus the bias.  This holds
  for \<^verbatim>\<open>torch.mm(x, W) + B\<close> of the first exercise, where the bias is a
  tensor of shape \<open>(1, D_out)\<close>, and for a linear layer of the library, where
  it is a vector of length \<open>D_out\<close>.  Both are functions of their arguments
  only, so there is no side effect.
\<close>

theorem linear_layer_transform:
  assumes "wf_tensor x" and "shape x = (N, D_in)"
  shows "(wf_tensor W \<and> shape W = (D_in, D_out) \<and> wf_tensor B \<and> shape B = (1, D_out)
          \<longrightarrow> (\<exists>y. linear_transform x W B = Inr y \<and> wf_tensor y \<and> shape y = (N, D_out) \<and>
                (\<forall>i<N. \<forall>j<D_out.
                   entry y i j = (\<Sum>k<D_in. entry x i k * entry W k j) + entry B 0 j)))
       \<and> (is_Linear D_in D_out l
          \<longrightarrow> (\<exists>y. Linear_forward l x = Inr y \<and> wf_tensor y \<and> shape y = (N, D_out) \<and>
                (\<forall>i<N. \<forall>j<D_out.
                   entry y i j = (\<Sum>k<D_in. entry x i k * entry (weight l) k j)
                                 + bias l ! j)))"
  using linear_transform_correct [OF assms(1), of W B N D_in D_out] assms(2)
    Linear_forward_correct [OF _ assms, of D_out l]
  by blast

theorem linear_layer_transform_witness:
  "wf_tensor \<lparr>nrows = 1, ncols = 2, rowsv = [[1, 2 :: real]]\<rparr>
   \<and> wf_tensor \<lparr>nrows = 2, ncols = 2, rowsv = [[3, 4], [5, 6 :: real]]\<rparr>
   \<and> wf_tensor \<lparr>nrows = 1, ncols = 2, rowsv = [[10, 20 :: real]]\<rparr>
   \<and> (\<exists>y. linear_transform \<lparr>nrows = 1, ncols = 2, rowsv = [[1, 2]]\<rparr>
              \<lparr>nrows = 2, ncols = 2, rowsv = [[3, 4], [5, 6]]\<rparr>
              \<lparr>nrows = 1, ncols = 2, rowsv = [[10, 20]]\<rparr> = Inr y
          \<and> wf_tensor y \<and> shape y = (1, 2) \<and> entry y 0 0 = 23 \<and> entry y 0 1 = 36)
   \<and> is_Linear 2 2
        \<lparr>weight = \<lparr>nrows = 2, ncols = 2, rowsv = [[3, 4], [5, 6]]\<rparr>, bias = [10, 20]\<rparr>
   \<and> (\<exists>y. Linear_forward
              \<lparr>weight = \<lparr>nrows = 2, ncols = 2, rowsv = [[3, 4], [5, 6]]\<rparr>, bias = [10, 20]\<rparr>
              \<lparr>nrows = 1, ncols = 2, rowsv = [[1, 2]]\<rparr> = Inr y
          \<and> wf_tensor y \<and> shape y = (1, 2) \<and> entry y 0 0 = 23 \<and> entry y 0 1 = 36)"
proof -
  let ?x = "\<lparr>nrows = 1, ncols = 2, rowsv = [[1, 2 :: real]]\<rparr>"
  let ?W = "\<lparr>nrows = 2, ncols = 2, rowsv = [[3, 4], [5, 6 :: real]]\<rparr>"
  let ?B = "\<lparr>nrows = 1, ncols = 2, rowsv = [[10, 20 :: real]]\<rparr>"
  let ?l = "\<lparr>weight = ?W, bias = [10, 20]\<rparr>"
  have w: "wf_tensor ?x" "wf_tensor ?W" "wf_tensor ?B"
    by (simp_all add: wf_tensor_def)
  have s: "shape ?x = (1, 2)" "shape ?W = (2, 2)" "shape ?B = (1, 2)"
    by (simp_all add: shape_def)
  have l: "is_Linear 2 2 ?l"
    by (simp add: is_Linear_def w s)
  note t = linear_layer_transform [OF w(1) s(1), of ?W 2 ?B ?l]
  from t w s
  obtain y where y: "linear_transform ?x ?W ?B = Inr y" "wf_tensor y" "shape y = (1, 2)"
    "\<forall>i<1. \<forall>j<2. entry y i j = (\<Sum>k<2. entry ?x i k * entry ?W k j) + entry ?B 0 j"
    by blast
  from y(4) have y': "entry y 0 0 = 23" "entry y 0 1 = 36"
    by (simp_all add: entry_def lessThan_Suc numeral_2_eq_2)
  from t l
  obtain z where z: "Linear_forward ?l ?x = Inr z" "wf_tensor z" "shape z = (1, 2)"
    "\<forall>i<1. \<forall>j<2. entry z i j = (\<Sum>k<2. entry ?x i k * entry (weight ?l) k j) + bias ?l ! j"
    by blast
  from z(4) have z': "entry z 0 0 = 23" "entry z 0 1 = 36"
    by (simp_all add: entry_def lessThan_Suc numeral_2_eq_2)
  from y(1-3) y' z(1-3) z' w l show ?thesis by blast
qed

text \<open>
  C6.  When the width of a batch differs from the number of rows of a layer's
  weight matrix, the matrix product fails with a shape-mismatch error that
  carries both shapes (hence the actual and the expected width), and so do the
  linear transform, the hidden layer and the whole forward pass: the result is
  the error and no output tensor, nothing is broadcast.  The same holds when
  the mismatch is at the second layer.
\<close>

theorem shape_mismatch_fails:
  assumes "ncols x \<noteq> nrows W"
  shows "mm x W = Inl (MmShapeError (nrows x, ncols x) (nrows W, ncols W))
       \<and> linear_transform x W B = Inl (MmShapeError (nrows x, ncols x) (nrows W, ncols W))
       \<and> h x W B = Inl (MmShapeError (nrows x, ncols x) (nrows W, ncols W))
       \<and> out x W B W2 B2 = Inl (MmShapeError (nrows x, ncols x) (nrows W, ncols W))
       \<and> (h x' W1 B1 = Inr x \<longrightarrow>
            out x' W1 B1 W B = Inl (MmShapeError (nrows x, ncols x) (nrows W, ncols W)))"
  using assms out_second_layer_mismatch [of x' W1 B1 x W B]
  by (simp add: out_def h_def linear_transform_def mm_def shape_def)

theorem shape_mismatch_fails_witness:
  "ncols (zeros 64 784) \<noteq> nrows (zeros 256 10)
   \<and> mm (zeros 64 784) (zeros 256 10) = Inl (MmShapeError (64, 784) (256, 10))
   \<and> linear_transform (zeros 64 784) (zeros 256 10) (zeros 1 10)
       = Inl (MmShapeError (64, 784) (256, 10))
   \<and> out (zeros 64 784) (zeros 256 10) (zeros 1 10) (zeros 10 10) (zeros 1 10)
       = Inl (MmShapeError (64, 784) (256, 10))"
proof -
  have n: "ncols (zeros 64 784) \<noteq> nrows (zeros 256 10)"
    by (simp add: zeros_def)
  from shape_mismatch_fails [OF n, of "zeros 1 10" "zeros 10 10" "zeros 1 10"] n
  show ?thesis
    by (simp add: zeros_def)
qed

text \<open>
  C7, as the code has it.  \<open>activation\<close> maps every entry \<open>x\<close> to
  \<open>1 / (1 + e^(-x))\<close> and keeps the shape; sigmoid is \<open>1/2\<close> at 0,
  monotonically increasing, and tends to 0 at \<open>-\<infinity>\<close> and to 1 at
  \<open>+\<infinity>\<close>.  No intermediate result leaves the range of 32-bit floats for
  \<open>x \<ge> -88\<close>, so for every \<open>|x| \<le> 88\<close>; for \<open>x \<le> -128\<close> the
  intermediate \<open>e^(-x)\<close> overflows.
\<close>

theorem sigmoid_activation:
  "(wf_tensor x \<longrightarrow> wf_tensor (activation x) \<and>
      (\<forall>i<nrows x. \<forall>j<ncols x. entry (activation x) i j = 1 / (1 + exp (- entry x i j))))
   \<and> shape (activation x) = shape x
   \<and> sigmoid 0 = 1 / 2
   \<and> mono sigmoid
   \<and> (sigmoid \<longlongrightarrow> 0) at_bot
   \<and> (sigmoid \<longlongrightarrow> 1) at_top
   \<and> (\<forall>v. - 88 \<le> v \<longrightarrow> \<not> activation_overflows v)
   \<and> (\<forall>v. v \<le> - 128 \<longrightarrow> overflows (exp (- v)))"
  using activation_entry [of x] activation_wf [of x] activation_shape [of x]
    sigmoid_zero sigmoid_mono sigmoid_at_bot sigmoid_at_top
    activation_no_overflow exp_overflow
  by blast

theorem sigmoid_activation_witness:
  "wf_tensor \<lparr>nrows = 1, ncols = 1, rowsv = [[0 :: real]]\<rparr>
   \<and> entry (activation \<lparr>nrows = 1, ncols = 1, rowsv = [[0]]\<rparr>) 0 0 = 1 / 2
   \<and> - 88 \<le> (88 :: real) \<and> \<not> activation_overflows 88
   \<and> (- 128 :: real) \<le> - 128 \<and> overflows (exp (- (- 128)))"
proof -
  let ?x = "\<lparr>nrows = 1, ncols = 1, rowsv = [[0 :: real]]\<rparr>"
  have w: "wf_tensor ?x" by (simp add: wf_tensor_def)
  note t = sigmoid_activation [of ?x]
  from t w have "entry (activation ?x) 0 0 = 1 / (1 + exp (- entry ?x 0 0))"
    by simp
  then have "entry (activation ?x) 0 0 = 1 / 2"
    by (simp add: entry_def)
  moreover from t have "\<not> activation_overflows 88" by simp
  moreover from t have "overflows (exp (- (- 128)))" by blast
  ultimately show ?thesis using w by simp
qed

text \<open>
  C7 as stated fails at \<open>x = -10000\<close>, an input of magnitude \<open>1e4\<close>: the
  notebook computes \<^verbatim>\<open>torch.exp(-x)\<close> without a branch on the sign of \<open>x\<close>,
  and \<open>e^10000\<close> is beyond the largest 32-bit float.
\<close>

theorem activation_overflow_counterexample:
  "\<bar>- 10000 :: real\<bar> \<le> 10000
   \<and> overflows (exp (- (- 10000))) \<and> activation_overflows (- 10000)"
  using exp_overflow [of "- 10000"] activation_overflow [of "- 10000"] by simp

text \<open>
  C8.  The network asked for in the "your turn" exercise is
  Linear(784, 128), ReLU, Linear(128, 64), ReLU, Linear(64, 10), Softmax.  The
  class \<open>Network\<close> given there as the solution computes, for every input,
  Linear(784, 256), Sigmoid, Linear(256, 10), Softmax: it has no ReLU and no
  layer of 128 units, and differs from the \<open>nn.Sequential\<close> model of the last
  part, which is the network asked for (\<open>model_forward_unfold\<close>).
\<close>

theorem your_turn_network_is_sigmoid:
  assumes "is_Network net"
  shows "Network_forward net x
       = Sequential_forward [Linear (hidden net), Sigmoid, Linear (output' net), Softmax] x
     \<and> [Linear (hidden net), Sigmoid, Linear (output' net), Softmax] \<noteq> model fc1 fc2 fc3
     \<and> \<not> is_Linear 784 128 (hidden net)"
  using assms Network_forward_Sequential [of net x] Network_no_fc1 [of net]
  by (simp add: model_def)

theorem your_turn_network_is_sigmoid_witness:
  "is_Network \<lparr>hidden = zero_layer 784 256, output' = zero_layer 256 10\<rparr>
   \<and> Network_forward \<lparr>hidden = zero_layer 784 256, output' = zero_layer 256 10\<rparr> (zeros 1 784)
       = Sequential_forward
           [Linear (zero_layer 784 256), Sigmoid, Linear (zero_layer 256 10), Softmax]
           (zeros 1 784)
   \<and> \<not> is_Linear 784 128 (zero_layer 784 256)"
proof -
  have n: "is_Network \<lparr>hidden = zero_layer 784 256, output' = zero_layer 256 10\<rparr>"
    by (simp add: is_Network_def zero_layer_is_Linear)
  from your_turn_network_is_sigmoid [OF n, of "zeros 1 784"] n show ?thesis
    by simp
qed



text \<open>
  C10, as the code has it.  In float32 the notebook's \<open>softmax\<close> is
  invariant under scaling by a power of two, and it is not invariant under
  shifts.  For a batch \<open>x\<close> of finite floats in which every row sum is finite
  and nonzero, and a scalar \<open>c = 2^k\<close> or \<open>c = -2^k\<close> that is a float, such
  that every product \<open>c * x_ij\<close> is exact and no row sum of \<open>c * x\<close>
  overflows, \<open>softmax (c * x)\<close> equals \<open>softmax x\<close> exactly, in whatever
  order the row sums are added.
\<close>

theorem softmax32_scale_power_of_two:
  assumes "wf_tensor x"
    and "- 149 \<le> k" and "k \<le> 127" and "c = 2 powi k \<or> c = - (2 powi k)"
    and "\<forall>i<nrows x. \<forall>j<ncols x.
           \<exists>v. entry x i j = F32 v \<and> round32 v = F32 v \<and> round32 (c * v) = F32 (c * v)"
    and "\<forall>i<nrows x. \<exists>s. reduce32 ord (rowsv x ! i) = F32 s \<and> s \<noteq> 0"
    and "\<forall>i<nrows x. \<exists>s. reduce32 ord (rowsv (scale32 c x) ! i) = F32 s"
  shows "softmax32 ord (scale32 c x) = softmax32 ord x
     \<and> (\<exists>x' c'. wf_tensor x'
            \<and> softmax32 (left_to_right (ncols x')) (shift32 c' x')
                \<noteq> softmax32 (left_to_right (ncols x')) x')"
proof -
  let ?x = "\<lparr>nrows = 1, ncols = 2, rowsv = [[F32 0, F32 1]]\<rparr>"
  have "wf_tensor ?x" by (simp add: wf_tensor_def)
  moreover have "softmax32 (left_to_right (ncols ?x)) (shift32 1 ?x)
      \<noteq> softmax32 (left_to_right (ncols ?x)) ?x"
    unfolding tensor.select_convs softmax32_shift_example softmax32_shift_example_unshifted
    by simp
  ultimately show ?thesis
    using softmax32_scale [OF assms] by blast
qed

theorem softmax32_scale_power_of_two_witness:
  "wf_tensor \<lparr>nrows = 1, ncols = 2, rowsv = [[F32 1, F32 3]]\<rparr>
   \<and> (2::real) = 2 powi 1
   \<and> round32 1 = F32 1 \<and> round32 3 = F32 3
   \<and> round32 (2 * 1) = F32 (2 * 1) \<and> round32 (2 * 3) = F32 (2 * 3)
   \<and> reduce32 (left_to_right 2) [F32 1, F32 3] = F32 4
   \<and> reduce32 (left_to_right 2)
        (rowsv (scale32 2 \<lparr>nrows = 1, ncols = 2, rowsv = [[F32 1, F32 3]]\<rparr>) ! 0) = F32 8
   \<and> softmax32 (left_to_right 2)
        (scale32 2 \<lparr>nrows = 1, ncols = 2, rowsv = [[F32 1, F32 3]]\<rparr>)
       = softmax32 (left_to_right 2) \<lparr>nrows = 1, ncols = 2, rowsv = [[F32 1, F32 3]]\<rparr>"
proof -
  let ?x = "\<lparr>nrows = 1, ncols = 2, rowsv = [[F32 1, F32 3]]\<rparr>"
  let ?ord = "left_to_right 2"
  have w: "wf_tensor ?x" by (simp add: wf_tensor_def)
  have c: "(2::real) = 2 powi 1 \<or> (2::real) = - (2 powi 1)" by simp
  have r: "round32 (2 * 1) = F32 (2 * 1)" "round32 (2 * 3) = F32 (2 * 3)"
    by (simp_all add: round32_values)
  have ent: "\<forall>i<nrows ?x. \<forall>j<ncols ?x.
      \<exists>v. entry ?x i j = F32 v \<and> round32 v = F32 v \<and> round32 (2 * v) = F32 (2 * v)"
    by (simp add: entry_def less_Suc_eq numeral_2_eq_2 round32_values)
  have s: "reduce32 ?ord [F32 1, F32 3] = F32 4"
    by (simp add: numeral_2_eq_2 round32_values)
  have s': "reduce32 ?ord (rowsv (scale32 2 ?x) ! 0) = F32 8"
    by (simp add: scale32_simps numeral_2_eq_2 round32_values)
  have sums: "\<forall>i<nrows ?x. \<exists>s. reduce32 ?ord (rowsv ?x ! i) = F32 s \<and> s \<noteq> 0"
    using s by simp
  have sums': "\<forall>i<nrows ?x. \<exists>s. reduce32 ?ord (rowsv (scale32 2 ?x) ! i) = F32 s"
    using s' by simp
  have "softmax32 ?ord (scale32 2 ?x) = softmax32 ?ord ?x"
    using softmax32_scale_power_of_two [OF w _ _ c ent sums sums'] by simp
  with w r s s' show ?thesis
    by (simp add: round32_values)
qed

text \<open>
  C10 as stated fails in two ways, both with nonzero row sums and a nonzero
  scalar.  For \<open>x = [[1, 2]]\<close> and \<open>c = 0.1\<close> rounding breaks the equality:
  the first entry is \<open>11184810 / 2^25\<close> after scaling and
  \<open>11184811 / 2^25\<close> before.  For \<open>x = [[2^126, 2^126]]\<close> and \<open>c = 2\<close>
  the row sum of \<open>c * x\<close> overflows to infinity and the result is
  \<open>[[0, 0]]\<close>, against \<open>[[1/2, 1/2]]\<close>.
\<close>

theorem softmax32_scale_counterexample:
  "(1 / 10 :: real) \<noteq> 0
   \<and> reduce32 (left_to_right 2) [F32 1, F32 2] = F32 3
   \<and> softmax32 (left_to_right 2)
        (scale32 (1 / 10) \<lparr>nrows = 1, ncols = 2, rowsv = [[F32 1, F32 2]]\<rparr>)
       = Inr \<lparr>nrows = 1, ncols = 2,
              rowsv = [[F32 (5592405 / 16777216), F32 (5592405 / 8388608)]]\<rparr>
   \<and> softmax32 (left_to_right 2) \<lparr>nrows = 1, ncols = 2, rowsv = [[F32 1, F32 2]]\<rparr>
       = Inr \<lparr>nrows = 1, ncols = 2,
              rowsv = [[F32 (11184811 / 33554432), F32 (11184811 / 16777216)]]\<rparr>
   \<and> softmax32 (left_to_right 2)
        (scale32 (1 / 10) \<lparr>nrows = 1, ncols = 2, rowsv = [[F32 1, F32 2]]\<rparr>)
       \<noteq> softmax32 (left_to_right 2) \<lparr>nrows = 1, ncols = 2, rowsv = [[F32 1, F32 2]]\<rparr>
   \<and> (2 :: real) \<noteq> 0
   \<and> reduce32 (left_to_right 2) [F32 (2 ^ 126), F32 (2 ^ 126)] = F32 (2 ^ 127)
   \<and> softmax32 (left_to_right 2)
        (scale32 2 \<lparr>nrows = 1, ncols = 2, rowsv = [[F32 (2 ^ 126), F32 (2 ^ 126)]]\<rparr>)
       = Inr \<lparr>nrows = 1, ncols = 2, rowsv = [[F32 0, F32 0]]\<rparr>
   \<and> softmax32 (left_to_right 2)
        \<lparr>nrows = 1, ncols = 2, rowsv = [[F32 (2 ^ 126), F32 (2 ^ 126)]]\<rparr>
       = Inr \<lparr>nrows = 1, ncols = 2, rowsv = [[F32 (1 / 2), F32 (1 / 2)]]\<rparr>
   \<and> softmax32 (left_to_right 2)
        (scale32 2 \<lparr>nrows = 1, ncols = 2, rowsv = [[F32 (2 ^ 126), F32 (2 ^ 126)]]\<rparr>)
       \<noteq> softmax32 (left_to_right 2)
          \<lparr>nrows = 1, ncols = 2, rowsv = [[F32 (2 ^ 126), F32 (2 ^ 126)]]\<rparr>"
proof -
  have "reduce32 (left_to_right 2) [F32 1, F32 2] = F32 3"
    by (simp add: numeral_2_eq_2 round32_values)
  then show ?thesis
    unfolding softmax32_rounding_example softmax32_rounding_example_unscaled
      softmax32_overflow_example softmax32_overflow_example_unscaled
      reduce32_overflow_example
    by simp
qed

end
